theory Spec2Isabelle
  imports Main "HOL-Library.Word" "HOL-Library.Signed_Division"
begin

unbundle bit_operations_syntax

section \<open>Machine types, buffers and kernel constants\<close>

type_synonym u8 = "8 word"
type_synonym u16 = "16 word"
type_synonym u32 = "32 word"

text \<open>
  A C array or a pointer into a byte buffer is a view of the bytes that follow it:
  index \<open>i\<close> is the byte at \<open>p[i]\<close>. The driver never passes a buffer's size along
  with the pointer, so a view has no length of its own; every access below is at an
  index the C code computes.
\<close>

type_synonym buf = "nat \<Rightarrow> u8"

definition bytes :: "buf \<Rightarrow> nat \<Rightarrow> u8 list" where
  \<comment> \<open>the first \<open>n\<close> bytes behind a pointer (what \<open>kmemdup(p, n)\<close> duplicates)\<close>
  "bytes p n = map p [0..<n]"

definition at_off :: "buf \<Rightarrow> nat \<Rightarrow> buf" where
  \<comment> \<open>pointer arithmetic \<open>&p[off]\<close>\<close>
  "at_off p off = (\<lambda>i. p (off + i))"

definition memcpy :: "buf \<Rightarrow> nat \<Rightarrow> buf \<Rightarrow> nat \<Rightarrow> buf" where
  \<comment> \<open>\<open>memcpy(&dst[off], src, n)\<close>\<close>
  "memcpy dst off src n = (\<lambda>a. if off \<le> a \<and> a < off + n then src (a - off) else dst a)"

definition buf_of :: "u8 list \<Rightarrow> buf" where
  \<comment> \<open>a buffer holding the given bytes, followed by zeroes\<close>
  "buf_of xs = (\<lambda>i. if i < length xs then xs ! i else 0)"

definition le16_to_cpu :: "u8 \<Rightarrow> u8 \<Rightarrow> u16" where
  \<comment> \<open>the 16-bit value stored little-endian in two consecutive bytes\<close>
  "le16_to_cpu lo hi = ucast lo OR push_bit 8 (ucast hi)"

definition le16_bytes :: "u16 \<Rightarrow> buf" where
  \<comment> \<open>the bytes of a 16-bit object on the little-endian host: \<open>(u8 *)&x\<close>\<close>
  "le16_bytes x = buf_of [ucast x, ucast (drop_bit 8 x)]"

definition le32_bytes :: "u32 \<Rightarrow> u8 list" where
  \<comment> \<open>\<open>put_unaligned_le32\<close>: four bytes, least significant first\<close>
  "le32_bytes x = [ucast x, ucast (drop_bit 8 x), ucast (drop_bit 16 x), ucast (drop_bit 24 x)]"

text \<open>Error numbers of \<open>errno-base.h\<close> and \<open>errno.h\<close>; the driver returns them negated.\<close>

abbreviation (input) EIO :: int where "EIO \<equiv> 5"
abbreviation (input) EAGAIN :: int where "EAGAIN \<equiv> 11"
abbreviation (input) ENOMEM :: int where "ENOMEM \<equiv> 12"
abbreviation (input) EBUSY :: int where "EBUSY \<equiv> 16"
abbreviation (input) EINVAL :: int where "EINVAL \<equiv> 22"
abbreviation (input) EBADR :: int where "EBADR \<equiv> 53"
abbreviation (input) EOPNOTSUPP :: int where "EOPNOTSUPP \<equiv> 95"
abbreviation (input) ETIMEDOUT :: int where "ETIMEDOUT \<equiv> 110"

subsection \<open>The driver's enums and macros\<close>

abbreviation (input) FIFO_SIZE :: int where "FIFO_SIZE \<equiv> 256"
abbreviation (input) TTY_WAKEUP_WATERMARK :: int where "TTY_WAKEUP_WATERMARK \<equiv> FIFO_SIZE div 2"

abbreviation (input) FT260_REPORT_MAX_LENGTH :: int where "FT260_REPORT_MAX_LENGTH \<equiv> 64"
abbreviation (input) FT260_RD_DATA_MAX :: int where "FT260_RD_DATA_MAX \<equiv> 60"
abbreviation (input) FT260_WR_DATA_MAX :: int where "FT260_WR_DATA_MAX \<equiv> 60"

abbreviation (input) FT260_SYSTEM_SETTINGS :: int where "FT260_SYSTEM_SETTINGS \<equiv> 0xA1"
abbreviation (input) FT260_I2C_STATUS :: int where "FT260_I2C_STATUS \<equiv> 0xC0"
abbreviation (input) FT260_I2C_READ_REQ :: int where "FT260_I2C_READ_REQ \<equiv> 0xC2"
abbreviation (input) FT260_I2C_REPORT_MIN :: int where "FT260_I2C_REPORT_MIN \<equiv> 0xD0"
abbreviation (input) FT260_I2C_REPORT_MAX :: int where "FT260_I2C_REPORT_MAX \<equiv> 0xDE"
abbreviation (input) FT260_UART_REPORT_MIN :: int where "FT260_UART_REPORT_MIN \<equiv> 0xF0"
abbreviation (input) FT260_UART_REPORT_MAX :: int where "FT260_UART_REPORT_MAX \<equiv> 0xFE"

abbreviation (input) FT260_SET_I2C_RESET :: int where "FT260_SET_I2C_RESET \<equiv> 0x20"
abbreviation (input) FT260_SET_UART_CONFIG :: int where "FT260_SET_UART_CONFIG \<equiv> 0x41"

abbreviation (input) FT260_I2C_STATUS_SUCCESS :: int where "FT260_I2C_STATUS_SUCCESS \<equiv> 0x00"
abbreviation (input) FT260_I2C_STATUS_CTRL_BUSY :: int where "FT260_I2C_STATUS_CTRL_BUSY \<equiv> 0x01"
abbreviation (input) FT260_I2C_STATUS_ERROR :: int where "FT260_I2C_STATUS_ERROR \<equiv> 0x02"
abbreviation (input) FT260_I2C_STATUS_ADDR_NO_ACK :: int where "FT260_I2C_STATUS_ADDR_NO_ACK \<equiv> 0x04"
abbreviation (input) FT260_I2C_STATUS_DATA_NO_ACK :: int where "FT260_I2C_STATUS_DATA_NO_ACK \<equiv> 0x08"
abbreviation (input) FT260_I2C_STATUS_ARBITR_LOST :: int where "FT260_I2C_STATUS_ARBITR_LOST \<equiv> 0x10"
abbreviation (input) FT260_I2C_STATUS_CTRL_IDLE :: int where "FT260_I2C_STATUS_CTRL_IDLE \<equiv> 0x20"
abbreviation (input) FT260_I2C_STATUS_BUS_BUSY :: int where "FT260_I2C_STATUS_BUS_BUSY \<equiv> 0x40"

abbreviation (input) FT260_FLAG_NONE :: int where "FT260_FLAG_NONE \<equiv> 0x00"
abbreviation (input) FT260_FLAG_START :: int where "FT260_FLAG_START \<equiv> 0x02"
abbreviation (input) FT260_FLAG_START_REPEATED :: int where "FT260_FLAG_START_REPEATED \<equiv> 0x03"
abbreviation (input) FT260_FLAG_STOP :: int where "FT260_FLAG_STOP \<equiv> 0x04"
abbreviation (input) FT260_FLAG_START_STOP :: int where "FT260_FLAG_START_STOP \<equiv> 0x06"
abbreviation (input) FT260_FLAG_START_STOP_REPEATED :: int where "FT260_FLAG_START_STOP_REPEATED \<equiv> 0x07"

definition FT260_I2C_DATA_REPORT_ID :: "int \<Rightarrow> int" where
  \<comment> \<open>C's \<open>/\<close> on \<open>int\<close> truncates towards zero: \<open>sdiv\<close>\<close>
  "FT260_I2C_DATA_REPORT_ID len = FT260_I2C_REPORT_MIN + (len - 1) sdiv 4"

definition FT260_UART_DATA_REPORT_ID :: "int \<Rightarrow> int" where
  "FT260_UART_DATA_REPORT_ID len = FT260_UART_REPORT_MIN + (len - 1) sdiv 4"

section \<open>The device context and the world behind the HID transport\<close>

text \<open>
  Every call the driver makes into the HID core, the scheduler and the tty layer is
  logged, in order, with the value it returned. The bytes of a report are logged as
  they are handed over.
\<close>

datatype hid_call =
    OutputReport "u8 list" int    \<comment> \<open>\<open>ft260_hid_output_report\<close>: the report, the return value\<close>
  | FeatureSet "u8 list" int      \<comment> \<open>\<open>ft260_hid_feature_report_set\<close>\<close>
  | FeatureGet u8 nat int         \<comment> \<open>\<open>ft260_hid_feature_report_get\<close>: report id, length, return value\<close>
  | UsleepRange int int           \<comment> \<open>\<open>usleep_range(min, max)\<close>\<close>
  | WaitCompletion int bool       \<comment> \<open>\<open>wait_for_completion_timeout\<close>: milliseconds, completed or not\<close>
  | HwPower int int               \<comment> \<open>\<open>hid_hw_power\<close>: the hint, the return value\<close>
  | TtyInsertFlipString "u8 list" int  \<comment> \<open>the bytes offered, the number accepted\<close>
  | TtyFlipBufferPush
  | TtyWakeup

text \<open>
  \<open>struct ft260_device\<close>, together with what its pointers reach: the memory that
  \<open>read_buf\<close> points into and the HID device \<open>hdev\<close>. The outside world is
  deterministic but arbitrary: the answer to a call is a function of the number of calls
  logged before it.
\<close>

record ft260_device =
  ft260_is_serial :: int
  xmit_fifo :: "u8 list"       \<comment> \<open>the kfifo's content, oldest byte first\<close>
  icount_tx :: u32
  icount_rx :: u32
  wait :: nat                  \<comment> \<open>\<open>struct completion\<close>: its \<open>done\<close> counter\<close>
  write_buf :: buf
  read_buf :: nat              \<comment> \<open>an address in \<open>mem\<close>\<close>
  read_idx :: u16
  read_len :: u16
  clock :: u16
  mem :: buf                   \<comment> \<open>the memory the callers' read buffers live in\<close>
  calls :: "hid_call list"
  kmalloc_ok :: "nat \<Rightarrow> bool"          \<comment> \<open>does the allocation made by call \<open>n\<close> succeed\<close>
  hw_output_report :: "nat \<Rightarrow> int"    \<comment> \<open>return value of \<open>hid_hw_output_report\<close>\<close>
  hw_raw_request :: "nat \<Rightarrow> int"      \<comment> \<open>return value of \<open>hid_hw_raw_request\<close>\<close>
  hw_feature_in :: "nat \<Rightarrow> buf"       \<comment> \<open>the bytes a GET_REPORT request stores\<close>
  hw_power :: "nat \<Rightarrow> int"            \<comment> \<open>return value of \<open>hid_hw_power\<close>\<close>
  hw_input :: "nat \<Rightarrow> buf list"       \<comment> \<open>input reports delivered while the driver waits\<close>
  tty_present :: "nat \<Rightarrow> bool"         \<comment> \<open>does \<open>tty_port_tty_get\<close> return a tty\<close>
  tty_flip_room :: "nat \<Rightarrow> nat"        \<comment> \<open>free space of the tty flip buffer\<close>

definition log_call :: "hid_call \<Rightarrow> ft260_device \<Rightarrow> ft260_device" where
  "log_call c dev = dev\<lparr>calls := calls dev @ [c]\<rparr>"

definition now :: "ft260_device \<Rightarrow> nat" where
  "now dev = length (calls dev)"

text \<open>The C division of the status check traps on a zero divisor.\<close>

datatype fault = DivideError

section \<open>HID transport wrappers\<close>

definition ft260_hid_feature_report_get ::
  "ft260_device \<Rightarrow> u8 \<Rightarrow> buf \<Rightarrow> nat \<Rightarrow> int \<times> buf \<times> ft260_device" where
  "ft260_hid_feature_report_get dev report_id data len =
     (if \<not> kmalloc_ok dev (now dev)
      then (- ENOMEM, data, log_call (FeatureGet report_id len (- ENOMEM)) dev)
      else let ret = hw_raw_request dev (now dev) in
        if ret = int len
        then (ret, memcpy data 0 (hw_feature_in dev (now dev)) len,
              log_call (FeatureGet report_id len ret) dev)
        else if ret \<ge> 0
        then (- EIO, data, log_call (FeatureGet report_id len (- EIO)) dev)
        else (ret, data, log_call (FeatureGet report_id len ret) dev))"

definition ft260_hid_feature_report_set ::
  "ft260_device \<Rightarrow> buf \<Rightarrow> nat \<Rightarrow> int \<times> ft260_device" where
  \<comment> \<open>the copy's first byte is overwritten with the report id before it is sent\<close>
  "ft260_hid_feature_report_set dev data len =
     (let buf = data(0 := of_int FT260_SYSTEM_SETTINGS) in
      if \<not> kmalloc_ok dev (now dev)
      then (- ENOMEM, log_call (FeatureSet (bytes buf len) (- ENOMEM)) dev)
      else let ret = hw_raw_request dev (now dev) in
        (ret, log_call (FeatureSet (bytes buf len) ret) dev))"

definition ft260_hid_output_report ::
  "ft260_device \<Rightarrow> buf \<Rightarrow> nat \<Rightarrow> int \<times> ft260_device" where
  "ft260_hid_output_report dev data len =
     (if \<not> kmalloc_ok dev (now dev)
      then (- ENOMEM, log_call (OutputReport (bytes data len) (- ENOMEM)) dev)
      else let ret = hw_output_report dev (now dev) in
        (ret, log_call (OutputReport (bytes data len) ret) dev))"

section \<open>I2C: reset, status, write\<close>

definition ft260_i2c_reset :: "ft260_device \<Rightarrow> int \<times> ft260_device" where
  \<comment> \<open>\<open>report.report\<close> is left uninitialised; the wrapper overwrites that byte\<close>
  "ft260_i2c_reset dev =
     ft260_hid_feature_report_set dev (buf_of [0, of_int FT260_SET_I2C_RESET]) 2"

definition ft260_xfer_status :: "ft260_device \<Rightarrow> int \<times> ft260_device" where
  "ft260_xfer_status dev =
     (case ft260_hid_feature_report_get dev (of_int FT260_I2C_STATUS) (\<lambda>_. 0) 5 of
        (ret, report, dev1) \<Rightarrow>
          if ret < 0 then (ret, dev1)
          else
            let dev2 = dev1\<lparr>clock := le16_to_cpu (report 2) (report 3)\<rparr>;
                bus_status = uint (report 1)
            in if bus_status AND FT260_I2C_STATUS_CTRL_BUSY \<noteq> 0 then (- EAGAIN, dev2)
               else if bus_status AND FT260_I2C_STATUS_BUS_BUSY \<noteq> 0 then (- EBUSY, dev2)
               else if bus_status AND FT260_I2C_STATUS_ERROR \<noteq> 0 then (- EIO, dev2)
               else if bus_status AND FT260_I2C_STATUS_CTRL_IDLE \<noteq> 0 then (0, dev2)
               else (- EIO, dev2))"

text \<open>
  The polling loop \<open>do { ... } while (--try)\<close> of the status check; \<open>try\<close> is the
  local counter, initialised to 3.
\<close>

fun ft260_xfer_status_retry :: "ft260_device \<Rightarrow> nat \<Rightarrow> int \<times> ft260_device" where
  "ft260_xfer_status_retry dev try =
     (case ft260_xfer_status dev of
        (ret, dev1) \<Rightarrow>
          if ret \<noteq> - EAGAIN then (ret, dev1)
          else (case try - 1 of
                  0 \<Rightarrow> (ret, dev1)
                | Suc t \<Rightarrow> ft260_xfer_status_retry dev1 (Suc t)))"

declare ft260_xfer_status_retry.simps [simp del]

definition ft260_hid_output_report_check_status ::
  "ft260_device \<Rightarrow> buf \<Rightarrow> int \<Rightarrow> fault + int \<times> ft260_device" where
  "ft260_hid_output_report_check_status dev data len =
     (case ft260_hid_output_report dev data (nat len) of
        (ret, dev1) \<Rightarrow>
          if ret < 0 then Inr (ret, snd (ft260_i2c_reset dev1))
          else if clock dev1 = 0 then Inl DivideError
          else
            let usec = 10000 div uint (clock dev1) * len;
                dev2 = log_call (UsleepRange usec (usec + 100)) dev1
            in case ft260_xfer_status_retry dev2 3 of
                 (ret, dev3) \<Rightarrow>
                   if ret = 0 \<or> ret = - EBUSY then Inr (0, dev3)
                   else Inr (- EIO, snd (ft260_i2c_reset dev3)))"


text \<open>
  \<open>ft260_i2c_write\<close>: the \<open>do { ... } while (data_len > 0)\<close> loop, with the locals
  \<open>data_len\<close> and \<open>idx\<close> as arguments. The callers pass a \<open>u16\<close> or \<open>u8\<close> length,
  so \<open>data_len\<close> is never negative.
\<close>

function ft260_i2c_write_loop ::
  "ft260_device \<Rightarrow> u8 \<Rightarrow> buf \<Rightarrow> int \<Rightarrow> int \<Rightarrow> u8 \<Rightarrow> fault + int \<times> ft260_device" where
  "ft260_i2c_write_loop dev addr data data_len idx flag =
     (let len = (if data_len \<le> FT260_WR_DATA_MAX then data_len else FT260_WR_DATA_MAX);
          rep = (write_buf dev)
                  (0 := of_int (FT260_I2C_DATA_REPORT_ID len),
                   1 := addr,
                   3 := of_int len,
                   2 := flag);
          rep = memcpy rep 4 (at_off data (nat idx)) (nat len);
          dev1 = dev\<lparr>write_buf := rep\<rparr>
      in case ft260_hid_output_report_check_status dev1 rep (len + 4) of
           Inl f \<Rightarrow> Inl f
         | Inr (ret, dev2) \<Rightarrow>
             if ret < 0 then Inr (ret, dev2)
             else if data_len - len > 0
             then ft260_i2c_write_loop dev2 addr data (data_len - len) (idx + len) flag
             else Inr (0, dev2))"
  by pat_completeness auto
termination
  by (relation "measure (\<lambda>(dev, addr, data, data_len, idx, flag). nat data_len)")
     (auto split: if_splits)

declare ft260_i2c_write_loop.simps [simp del]

definition ft260_i2c_write ::
  "ft260_device \<Rightarrow> u8 \<Rightarrow> buf \<Rightarrow> int \<Rightarrow> u8 \<Rightarrow> fault + int \<times> ft260_device" where
  "ft260_i2c_write dev addr data data_len flag = ft260_i2c_write_loop dev addr data data_len 0 flag"

definition ft260_smbus_write ::
  "ft260_device \<Rightarrow> u8 \<Rightarrow> u8 \<Rightarrow> buf \<Rightarrow> u8 \<Rightarrow> u8 \<Rightarrow> fault + int \<times> ft260_device" where
  \<comment> \<open>\<open>sizeof(rep->data)\<close> is 60; \<open>len\<close> starts at 4 and grows by \<open>rep->length\<close>\<close>
  "ft260_smbus_write dev addr cmd data data_len flag =
     (if uint data_len \<ge> 60 then Inr (- EINVAL, dev)
      else
        let rep = (write_buf dev)
                    (1 := addr,
                     4 := cmd,
                     3 := data_len + 1,
                     2 := flag);
            len = 4 + uint (rep 3);
            rep = rep(0 := of_int (FT260_I2C_DATA_REPORT_ID len));
            rep = (if uint data_len > 0 then memcpy rep 5 data (unat data_len) else rep);
            dev1 = dev\<lparr>write_buf := rep\<rparr>
        in ft260_hid_output_report_check_status dev1 rep len)"

section \<open>UART receive path and the input-report dispatcher\<close>

definition ft260_uart_receive_chars ::
  "ft260_device \<Rightarrow> buf \<Rightarrow> u8 \<Rightarrow> int \<times> ft260_device" where
  \<comment> \<open>\<open>tty_insert_flip_string\<close> accepts as many bytes as the flip buffer has room for\<close>
  "ft260_uart_receive_chars port data len =
     (if uint len > FT260_RD_DATA_MAX then (- EBADR, port)
      else
        let ret = int (min (unat len) (tty_flip_room port (now port)));
            port1 = log_call (TtyInsertFlipString (bytes data (unat len)) ret) port;
            port2 = port1\<lparr>icount_rx := icount_rx port1 + of_int ret\<rparr>;
            port3 = (if ret \<noteq> 0 then log_call TtyFlipBufferPush port2 else port2)
        in (ret, port3))"

definition complete :: "ft260_device \<Rightarrow> ft260_device" where
  "complete dev = dev\<lparr>wait := wait dev + 1\<rparr>"

definition ft260_raw_event :: "ft260_device \<Rightarrow> buf \<Rightarrow> int \<Rightarrow> int \<times> ft260_device" where
  \<comment> \<open>\<open>xfer->report\<close> is \<open>data[0]\<close>, \<open>xfer->length\<close> is \<open>data[1]\<close>, \<open>xfer->data\<close> starts at \<open>data[2]\<close>; the \<open>size\<close> argument \<open>sz\<close> is not used\<close>
  "ft260_raw_event dev data sz =
     (let xfer_report = uint (data 0);
          xfer_length = data 1
      in if xfer_report \<ge> FT260_I2C_REPORT_MIN \<and> xfer_report \<le> FT260_I2C_REPORT_MAX then
           let dev1 = dev\<lparr>mem := memcpy (mem dev) (read_buf dev + unat (read_idx dev))
                                      (at_off data 2) (unat xfer_length)\<rparr>;
               dev2 = dev1\<lparr>read_idx := read_idx dev1 + ucast xfer_length\<rparr>;
               dev3 = (if read_idx dev2 = read_len dev2 then complete dev2 else dev2)
           in (1, dev3)
         else if uint xfer_length > FT260_RD_DATA_MAX then (- EBADR, dev)
         else if xfer_report \<ge> FT260_UART_REPORT_MIN \<and> xfer_report \<le> FT260_UART_REPORT_MAX then
           ft260_uart_receive_chars dev (at_off data 2) xfer_length
         else (0, dev))"

section \<open>I2C read\<close>

text \<open>
  The blocking wait, sequentialised: while the caller sleeps, the transport delivers the
  input reports the device sends, one after the other, to \<open>ft260_raw_event\<close>. The
  waiter wakes up as soon as the completion is signalled; it times out when the reports
  run out before that.
\<close>

fun wait_for_reports :: "ft260_device \<Rightarrow> buf list \<Rightarrow> bool \<times> ft260_device" where
  "wait_for_reports dev [] =
     (if wait dev > 0 then (True, dev\<lparr>wait := wait dev - 1\<rparr>) else (False, dev))"
| "wait_for_reports dev (r # rs) =
     (if wait dev > 0 then (True, dev\<lparr>wait := wait dev - 1\<rparr>)
      else wait_for_reports (snd (ft260_raw_event dev r FT260_REPORT_MAX_LENGTH)) rs)"

definition wait_for_completion_timeout :: "ft260_device \<Rightarrow> int \<Rightarrow> bool \<times> ft260_device" where
  "wait_for_completion_timeout dev msecs =
     (case wait_for_reports dev (hw_input dev (now dev)) of
        (completed, dev1) \<Rightarrow> (completed, log_call (WaitCompletion msecs completed) dev1))"

definition reinit_completion :: "ft260_device \<Rightarrow> ft260_device" where
  "reinit_completion dev = dev\<lparr>wait := 0\<rparr>"

definition ft260_i2c_read ::
  "ft260_device \<Rightarrow> u8 \<Rightarrow> nat \<Rightarrow> u16 \<Rightarrow> u8 \<Rightarrow> int \<times> ft260_device" where
  \<comment> \<open>\<open>data\<close> is the address of the destination in \<open>mem\<close>\<close>
  "ft260_i2c_read dev addr data len flag =
     (if uint len > FT260_RD_DATA_MAX then (- EINVAL, dev)
      else
        let dev1 = dev\<lparr>read_idx := 0, read_buf := data, read_len := len\<rparr>;
            rep = buf_of [of_int FT260_I2C_READ_REQ, addr, flag, ucast len, ucast (drop_bit 8 len)];
            dev2 = reinit_completion dev1
        in case ft260_hid_output_report dev2 rep 5 of
             (ret, dev3) \<Rightarrow>
               if ret < 0 then (ret, dev3)
               else
                 case wait_for_completion_timeout dev3 5000 of
                   (completed, dev4) \<Rightarrow>
                     if \<not> completed then (- ETIMEDOUT, snd (ft260_i2c_reset dev4))
                     else
                       case ft260_xfer_status dev4 of
                         (ret, dev5) \<Rightarrow>
                           if ret = 0 then (0, dev5)
                           else (- EIO, snd (ft260_i2c_reset dev5)))"


section \<open>Combined transfers\<close>

text \<open>\<open>struct i2c_msg\<close>; \<open>msg_buf\<close> is the address of the message's buffer in \<open>mem\<close>.\<close>

record i2c_msg =
  msg_addr :: u16
  msg_flags :: u16
  msg_len :: u16
  msg_buf :: nat

abbreviation (input) I2C_M_RD :: int where "I2C_M_RD \<equiv> 0x0001"
abbreviation (input) PM_HINT_FULLON :: int where "PM_HINT_FULLON \<equiv> 32"
abbreviation (input) PM_HINT_NORMAL :: int where "PM_HINT_NORMAL \<equiv> 2"

abbreviation (input) I2C_SMBUS_READ :: int where "I2C_SMBUS_READ \<equiv> 1"
abbreviation (input) I2C_SMBUS_WRITE :: int where "I2C_SMBUS_WRITE \<equiv> 0"
abbreviation (input) I2C_SMBUS_QUICK :: int where "I2C_SMBUS_QUICK \<equiv> 0"
abbreviation (input) I2C_SMBUS_BYTE :: int where "I2C_SMBUS_BYTE \<equiv> 1"
abbreviation (input) I2C_SMBUS_BYTE_DATA :: int where "I2C_SMBUS_BYTE_DATA \<equiv> 2"
abbreviation (input) I2C_SMBUS_WORD_DATA :: int where "I2C_SMBUS_WORD_DATA \<equiv> 3"
abbreviation (input) I2C_SMBUS_BLOCK_DATA :: int where "I2C_SMBUS_BLOCK_DATA \<equiv> 5"
abbreviation (input) I2C_SMBUS_I2C_BLOCK_DATA :: int where "I2C_SMBUS_I2C_BLOCK_DATA \<equiv> 8"

text \<open>
  The loop of \<open>ft260_i2c_write_read\<close>, with the locals \<open>left_len\<close>, \<open>read_buf\<close> and
  \<open>read_off\<close> as arguments; \<open>wr_len\<close> is \<open>msgs[0].len\<close>. The write sends the bytes of
  the local \<open>read_off\<close>, a \<open>u16\<close> in host (little-endian) byte order.
\<close>

function ft260_i2c_write_read_loop ::
  "ft260_device \<Rightarrow> u8 \<Rightarrow> u16 \<Rightarrow> u16 \<Rightarrow> nat \<Rightarrow> u16 \<Rightarrow> fault + int \<times> ft260_device" where
  "ft260_i2c_write_read_loop dev addr wr_len left_len rd_buf read_off =
     (let len = (if uint left_len \<le> FT260_RD_DATA_MAX then uint left_len else FT260_RD_DATA_MAX)
      in case ft260_i2c_write dev addr (le16_bytes read_off) (uint wr_len) (of_int FT260_FLAG_START) of
           Inl f \<Rightarrow> Inl f
         | Inr (ret, dev1) \<Rightarrow>
             if ret < 0 then Inr (ret, dev1)
             else
               case ft260_i2c_read dev1 addr rd_buf (of_int len) (of_int FT260_FLAG_START_STOP) of
                 (ret, dev2) \<Rightarrow>
                   if ret < 0 then Inr (ret, dev2)
                   else if uint (left_len - of_int len) > 0
                   then ft260_i2c_write_read_loop dev2 addr wr_len (left_len - of_int len)
                          (rd_buf + nat len) (read_off + of_int len)
                   else Inr (0, dev2))"
  by pat_completeness auto
termination
proof (relation "measure (\<lambda>(dev, addr, wr_len, left_len, rd_buf, read_off). unat left_len)")
  show "wf (measure (\<lambda>(dev, addr, wr_len, left_len, rd_buf, read_off). unat left_len))"
    by simp
next
  fix dev :: ft260_device and addr :: u8 and wr_len left_len :: u16 and rd_buf :: nat
    and read_off :: u16 and len :: int and x2 :: "int \<times> ft260_device" and ret :: int
    and dev1 :: ft260_device and x :: "int \<times> ft260_device" and xa :: int and dev2 :: ft260_device
  assume len: "len = (if uint left_len \<le> 60 then uint left_len else 60)"
    and pos: "0 < uint (left_len - word_of_int len)"
  have big: "60 < uint left_len"
  proof (rule ccontr)
    assume "\<not> 60 < uint left_len"
    then have "len = uint left_len" using len by simp
    then have "left_len - word_of_int len = 0" by simp
    then show False using pos by simp
  qed
  then have l60: "len = 60" using len by simp
  have le: "(60 :: u16) \<le> left_len"
    using big by (simp add: word_le_def)
  have "unat (left_len - 60) = unat left_len - 60"
    using le by (simp add: unat_sub)
  moreover have "60 < unat left_len"
    using big unfolding uint_nat by linarith
  ultimately show "((dev2, addr, wr_len, left_len - word_of_int len, rd_buf + nat len,
        read_off + word_of_int len), dev, addr, wr_len, left_len, rd_buf, read_off)
       \<in> measure (\<lambda>(dev, addr, wr_len, left_len, rd_buf, read_off). unat left_len)"
    using l60 by simp
qed

declare ft260_i2c_write_read_loop.simps [simp del]

definition ft260_i2c_write_read ::
  "ft260_device \<Rightarrow> (nat \<Rightarrow> i2c_msg) \<Rightarrow> fault + int \<times> ft260_device" where
  \<comment> \<open>\<open>memcpy(&read_off, msgs[0].buf, msgs[0].len)\<close> fills the low bytes of the zeroed \<open>u16\<close>\<close>
  "ft260_i2c_write_read dev msgs =
     (let left_len = msg_len (msgs 1);
          rd_buf = msg_buf (msgs 1);
          addr = (ucast (msg_addr (msgs 0)) :: u8)
      in if uint (msg_len (msgs 0)) > 2 then Inr (- EOPNOTSUPP, dev)
         else
           let off = memcpy (le16_bytes 0) 0 (at_off (mem dev) (msg_buf (msgs 0)))
                       (unat (msg_len (msgs 0)));
               read_off = le16_to_cpu (off 0) (off 1)
           in ft260_i2c_write_read_loop dev addr (msg_len (msgs 0)) left_len rd_buf read_off)"

definition hid_hw_power :: "ft260_device \<Rightarrow> int \<Rightarrow> int \<times> ft260_device" where
  "hid_hw_power dev hint =
     (let ret = hw_power dev (now dev) in (ret, log_call (HwPower hint ret) dev))"

definition ft260_i2c_xfer ::
  "ft260_device \<Rightarrow> (nat \<Rightarrow> i2c_msg) \<Rightarrow> int \<Rightarrow> fault + int \<times> ft260_device" where
  \<comment> \<open>the mutex has no effect on a single caller\<close>
  "ft260_i2c_xfer dev msgs num =
     (case hid_hw_power dev PM_HINT_FULLON of
        (ret, dev1) \<Rightarrow>
          if ret < 0 then Inr (ret, dev1)
          else
            case (if num = 1 then
                    (if uint (msg_flags (msgs 0)) AND I2C_M_RD \<noteq> 0
                     then Inr (ft260_i2c_read dev1 (ucast (msg_addr (msgs 0))) (msg_buf (msgs 0))
                                 (msg_len (msgs 0)) (of_int FT260_FLAG_START_STOP))
                     else ft260_i2c_write dev1 (ucast (msg_addr (msgs 0)))
                            (at_off (mem dev1) (msg_buf (msgs 0)))
                            (uint (msg_len (msgs 0))) (of_int FT260_FLAG_START_STOP))
                  else ft260_i2c_write_read dev1 msgs) of
              Inl f \<Rightarrow> Inl f
            | Inr (ret, dev2) \<Rightarrow>
                Inr (if ret < 0 then ret else num, snd (hid_hw_power dev2 PM_HINT_NORMAL)))"

text \<open>
  \<open>ft260_smbus_xfer\<close>; \<open>data\<close> is the address of the \<open>union i2c_smbus_data\<close> in
  \<open>mem\<close>: \<open>data->byte\<close>, \<open>data->word\<close> and \<open>data->block\<close> all start there. The first
  component of the inner result tells whether the \<open>goto smbus_exit\<close> after a failed
  command write was taken; both ways end in \<open>smbus_exit\<close>.
\<close>

definition ft260_smbus_xfer ::
  "ft260_device \<Rightarrow> u16 \<Rightarrow> u16 \<Rightarrow> int \<Rightarrow> u8 \<Rightarrow> int \<Rightarrow> nat \<Rightarrow> fault + int \<times> ft260_device" where
  "ft260_smbus_xfer dev addr flags read_write cmd sz data =
     (case hid_hw_power dev PM_HINT_FULLON of
        (ret, dev1) \<Rightarrow>
          if ret < 0 then Inr (ret, dev1)
          else
            let a = (ucast addr :: u8);
                null = (\<lambda>_. 0) :: buf;
                block0 = mem dev1 data;
                write_then_read = (\<lambda>rd_buf rd_len.
                  case ft260_smbus_write dev1 a cmd null 0 (of_int FT260_FLAG_START) of
                    Inl f \<Rightarrow> Inl f
                  | Inr (ret, dev2) \<Rightarrow>
                      if ret \<noteq> 0 then Inr (ret, dev2)
                      else Inr (ft260_i2c_read dev2 a rd_buf rd_len
                                  (of_int FT260_FLAG_START_STOP_REPEATED)))
            in
            case (if sz = I2C_SMBUS_QUICK then
                    (if read_write = I2C_SMBUS_READ
                     then Inr (ft260_i2c_read dev1 a data 0 (of_int FT260_FLAG_START_STOP))
                     else ft260_smbus_write dev1 a cmd null 0 (of_int FT260_FLAG_START_STOP))
                  else if sz = I2C_SMBUS_BYTE then
                    (if read_write = I2C_SMBUS_READ
                     then Inr (ft260_i2c_read dev1 a data 1 (of_int FT260_FLAG_START_STOP))
                     else ft260_smbus_write dev1 a cmd null 0 (of_int FT260_FLAG_START_STOP))
                  else if sz = I2C_SMBUS_BYTE_DATA then
                    (if read_write = I2C_SMBUS_READ
                     then write_then_read data 1
                     else ft260_smbus_write dev1 a cmd (at_off (mem dev1) data) 1
                            (of_int FT260_FLAG_START_STOP))
                  else if sz = I2C_SMBUS_WORD_DATA then
                    (if read_write = I2C_SMBUS_READ
                     then write_then_read data 2
                     else ft260_smbus_write dev1 a cmd (at_off (mem dev1) data) 2
                            (of_int FT260_FLAG_START_STOP))
                  else if sz = I2C_SMBUS_BLOCK_DATA then
                    (if read_write = I2C_SMBUS_READ
                     then write_then_read data (ucast block0 + 1)
                     else ft260_smbus_write dev1 a cmd (at_off (mem dev1) data) (block0 + 1)
                            (of_int FT260_FLAG_START_STOP))
                  else if sz = I2C_SMBUS_I2C_BLOCK_DATA then
                    (if read_write = I2C_SMBUS_READ
                     then write_then_read (data + 1) (ucast block0)
                     else ft260_smbus_write dev1 a cmd (at_off (mem dev1) (data + 1)) block0
                            (of_int FT260_FLAG_START_STOP))
                  else Inr (- EOPNOTSUPP, dev1)) of
              Inl f \<Rightarrow> Inl f
            | Inr (ret, dev3) \<Rightarrow> Inr (ret, snd (hid_hw_power dev3 PM_HINT_NORMAL)))"


section \<open>UART line configuration\<close>

text \<open>
  The fields of \<open>struct ktermios\<close> the driver reads, and the \<open>c_cflag\<close> bits of
  \<open>asm-generic/termbits.h\<close>.
\<close>

record ktermios =
  c_cflag :: u32
  c_ispeed :: u32
  c_ospeed :: u32

abbreviation (input) CSIZE :: u32 where "CSIZE \<equiv> 0x30"
abbreviation (input) CS5 :: u32 where "CS5 \<equiv> 0x00"
abbreviation (input) CS6 :: u32 where "CS6 \<equiv> 0x10"
abbreviation (input) CS7 :: u32 where "CS7 \<equiv> 0x20"
abbreviation (input) CS8 :: u32 where "CS8 \<equiv> 0x30"
abbreviation (input) CSTOPB :: u32 where "CSTOPB \<equiv> 0x40"
abbreviation (input) PARENB :: u32 where "PARENB \<equiv> 0x100"
abbreviation (input) PARODD :: u32 where "PARODD \<equiv> 0x200"
abbreviation (input) CRTSCTS :: u32 where "CRTSCTS \<equiv> 0x80000000"

abbreviation (input) FT260_CFG_FLOW_CTRL_OFF :: int where "FT260_CFG_FLOW_CTRL_OFF \<equiv> 0x00"
abbreviation (input) FT260_CFG_FLOW_CTRL_RTS_CTS :: int where "FT260_CFG_FLOW_CTRL_RTS_CTS \<equiv> 0x01"
abbreviation (input) FT260_CFG_FLOW_CTRL_DTR_DSR :: int where "FT260_CFG_FLOW_CTRL_DTR_DSR \<equiv> 0x02"
abbreviation (input) FT260_CFG_FLOW_CTRL_XON_XOFF :: int where "FT260_CFG_FLOW_CTRL_XON_XOFF \<equiv> 0x03"
abbreviation (input) FT260_CFG_FLOW_CTRL_NONE :: int where "FT260_CFG_FLOW_CTRL_NONE \<equiv> 0x04"
abbreviation (input) FT260_CFG_DATA_BITS_7 :: int where "FT260_CFG_DATA_BITS_7 \<equiv> 0x07"
abbreviation (input) FT260_CFG_DATA_BITS_8 :: int where "FT260_CFG_DATA_BITS_8 \<equiv> 0x08"
abbreviation (input) FT260_CFG_PAR_NO :: int where "FT260_CFG_PAR_NO \<equiv> 0x00"
abbreviation (input) FT260_CFG_PAR_ODD :: int where "FT260_CFG_PAR_ODD \<equiv> 0x01"
abbreviation (input) FT260_CFG_PAR_EVEN :: int where "FT260_CFG_PAR_EVEN \<equiv> 0x02"
abbreviation (input) FT260_CFG_STOP_ONE_BIT :: int where "FT260_CFG_STOP_ONE_BIT \<equiv> 0x00"
abbreviation (input) FT260_CFG_STOP_TWO_BIT :: int where "FT260_CFG_STOP_TWO_BIT \<equiv> 0x02"
abbreviation (input) FT260_CFG_BREAKING_NO :: int where "FT260_CFG_BREAKING_NO \<equiv> 0x00"
abbreviation (input) FT260_CFG_BEAKING_YES :: int where "FT260_CFG_BEAKING_YES \<equiv> 0x01"
abbreviation (input) FT260_CFG_BAUD_MIN :: int where "FT260_CFG_BAUD_MIN \<equiv> 1200"
abbreviation (input) FT260_CFG_BAUD_MAX :: int where "FT260_CFG_BAUD_MAX \<equiv> 12000000"

text \<open>
  \<open>struct ft260_configure_uart_request\<close>, packed. The \<open>baudrate\<close> field holds the four
  bytes \<open>put_unaligned_le32\<close> stores; on the little-endian host \<open>cpu_to_le32\<close> changes
  nothing.
\<close>

record ft260_configure_uart_request =
  req_report :: u8
  req_request :: u8
  req_flow_ctrl :: u8
  req_baudrate :: "u8 list"
  req_data_bit :: u8
  req_parity :: u8
  req_stop_bit :: u8
  req_breaking :: u8

definition cpu_to_le32 :: "u32 \<Rightarrow> u32" where
  "cpu_to_le32 x = x"

definition request_bytes :: "ft260_configure_uart_request \<Rightarrow> u8 list" where
  "request_bytes req =
     [req_report req, req_request req, req_flow_ctrl req] @ req_baudrate req @
     [req_data_bit req, req_parity req, req_stop_bit req, req_breaking req]"

text \<open>
  \<open>ft260_uart_change_speed\<close>. The tty layer's \<open>tty_termios_baud_rate\<close> and
  \<open>tty_encode_baud_rate\<close> are parameters; \<open>termios\<close> is the tty's own termios, which
  the function may change, so it is returned. Both callers hold an open tty.
\<close>

definition ft260_uart_change_speed ::
  "(ktermios \<Rightarrow> u32) \<Rightarrow> (ktermios \<Rightarrow> u32 \<Rightarrow> u32 \<Rightarrow> ktermios) \<Rightarrow>
   ft260_device \<Rightarrow> ktermios \<Rightarrow> int \<times> ktermios \<times> ft260_device" where
  "ft260_uart_change_speed tty_termios_baud_rate tty_encode_baud_rate port termios =
     (let req = \<lparr>req_report = 0, req_request = 0, req_flow_ctrl = 0, req_baudrate = [0, 0, 0, 0],
                 req_data_bit = 0, req_parity = 0, req_stop_bit = 0, req_breaking = 0\<rparr>;
          req = req\<lparr>req_report := of_int FT260_SYSTEM_SETTINGS\<rparr>;
          req = req\<lparr>req_request := of_int FT260_SET_UART_CONFIG\<rparr>;
          csize = c_cflag termios AND CSIZE;
          (req, termios) =
            (if csize = CS7 then (req\<lparr>req_data_bit := of_int FT260_CFG_DATA_BITS_7\<rparr>, termios)
             else if csize = CS5 \<or> csize = CS6
             then (req\<lparr>req_data_bit := of_int FT260_CFG_DATA_BITS_8\<rparr>, termios\<lparr>c_cflag := CS8\<rparr>)
             else (req\<lparr>req_data_bit := of_int FT260_CFG_DATA_BITS_8\<rparr>, termios));
          req = req\<lparr>req_stop_bit :=
                  (if c_cflag termios AND CSTOPB \<noteq> 0 then of_int FT260_CFG_STOP_TWO_BIT
                   else of_int FT260_CFG_STOP_ONE_BIT)\<rparr>;
          req = (if c_cflag termios AND PARENB \<noteq> 0
                 then req\<lparr>req_parity :=
                        (if c_cflag termios AND PARODD \<noteq> 0 then of_int FT260_CFG_PAR_ODD
                         else of_int FT260_CFG_PAR_EVEN)\<rparr>
                 else req\<lparr>req_parity := of_int FT260_CFG_PAR_NO\<rparr>);
          baud = tty_termios_baud_rate termios;
          (baud, termios) =
            (if baud = 0 \<or> uint baud < FT260_CFG_BAUD_MIN \<or> uint baud > FT260_CFG_BAUD_MAX
             then (9600, tty_encode_baud_rate termios 9600 9600)
             else (baud, termios));
          req = req\<lparr>req_baudrate := le32_bytes (cpu_to_le32 baud)\<rparr>;
          req = (if c_cflag termios AND CRTSCTS \<noteq> 0
                 then req\<lparr>req_flow_ctrl := of_int FT260_CFG_FLOW_CTRL_RTS_CTS\<rparr>
                 else req\<lparr>req_flow_ctrl := of_int FT260_CFG_FLOW_CTRL_OFF\<rparr>);
          req = req\<lparr>req_flow_ctrl := of_int FT260_CFG_FLOW_CTRL_NONE\<rparr>;
          req = req\<lparr>req_breaking := of_int FT260_CFG_BREAKING_NO\<rparr>
      in case ft260_hid_feature_report_set port (buf_of (request_bytes req)) 11 of
           (ret, port1) \<Rightarrow> (ret, termios, port1))"


section \<open>Notions used to state the properties\<close>

fun output_report_of :: "hid_call \<Rightarrow> u8 list list" where
  "output_report_of (OutputReport bs ret) = [bs]"
| "output_report_of _ = []"

definition output_reports :: "hid_call list \<Rightarrow> u8 list list" where
  \<comment> \<open>the output reports among the calls, in the order they were sent\<close>
  "output_reports cs = concat (map output_report_of cs)"

text \<open>
  The fragments a write of \<open>n\<close> bytes, starting at \<open>data[idx]\<close>, is specified to send:
  chunks of at most 60 bytes, each behind a four-byte header with the report id for the
  chunk length, the address, the condition flag and the chunk length.
\<close>

fun write_fragments :: "u8 \<Rightarrow> u8 \<Rightarrow> buf \<Rightarrow> nat \<Rightarrow> nat \<Rightarrow> u8 list list" where
  "write_fragments addr flag data idx n =
     ([of_int (FT260_I2C_DATA_REPORT_ID (int (min n 60))), addr, flag, of_nat (min n 60)] @
        bytes (at_off data idx) (min n 60)) #
     (if n > 60 then write_fragments addr flag data (idx + 60) (n - 60) else [])"

declare write_fragments.simps [simp del]

definition same_world :: "ft260_device \<Rightarrow> ft260_device \<Rightarrow> bool" where
  \<comment> \<open>the outside world answers the second device context as it answers the first\<close>
  "same_world d d' \<longleftrightarrow>
     kmalloc_ok d' = kmalloc_ok d \<and> hw_output_report d' = hw_output_report d \<and>
     hw_raw_request d' = hw_raw_request d \<and> hw_feature_in d' = hw_feature_in d \<and>
     hw_power d' = hw_power d \<and> hw_input d' = hw_input d \<and>
     tty_present d' = tty_present d \<and> tty_flip_room d' = tty_flip_room d"

definition idle_world :: "ft260_device \<Rightarrow> bool" where
  \<comment> \<open>every allocation and transfer succeeds, and the bridge always reports an idle bus\<close>
  "idle_world dev \<longleftrightarrow>
     (\<forall>t. kmalloc_ok dev t \<and> 0 \<le> hw_output_report dev t \<and> hw_raw_request dev t = 5 \<and>
          hw_feature_in dev t 1 = 0x20 \<and>
          le16_to_cpu (hw_feature_in dev t 2) (hw_feature_in dev t 3) \<noteq> 0)"




fun is_bus_reset :: "hid_call \<Rightarrow> bool" where
  \<comment> \<open>a call of \<open>ft260_i2c_reset\<close>: the feature report \<open>FT260_SET_I2C_RESET\<close>\<close>
  "is_bus_reset (FeatureSet bs ret) = (bs = [0xA1, 0x20])"
| "is_bus_reset _ = False"

definition bus_resets :: "hid_call list \<Rightarrow> nat" where
  "bus_resets cs = length (filter is_bus_reset cs)"

fun is_status_request :: "hid_call \<Rightarrow> bool" where
  "is_status_request (FeatureGet rid n ret) = (rid = 0xC0)"
| "is_status_request _ = False"

definition status_requests :: "hid_call list \<Rightarrow> nat" where
  "status_requests cs = length (filter is_status_request cs)"

text \<open>
  What the status request made as call number \<open>t\<close> returns: the error of a request that
  fails, or else the decoding of the status byte, whose bits are tested in the order
  \<open>CTRL_BUSY\<close>, \<open>BUS_BUSY\<close>, \<open>ERROR\<close>, \<open>CTRL_IDLE\<close>.
\<close>

definition status_code :: "ft260_device \<Rightarrow> nat \<Rightarrow> int" where
  "status_code dev t =
     (if \<not> kmalloc_ok dev t then - ENOMEM
      else if hw_raw_request dev t \<noteq> 5
      then (if 0 \<le> hw_raw_request dev t then - EIO else hw_raw_request dev t)
      else if uint (hw_feature_in dev t 1) AND FT260_I2C_STATUS_CTRL_BUSY \<noteq> 0 then - EAGAIN
      else if uint (hw_feature_in dev t 1) AND FT260_I2C_STATUS_BUS_BUSY \<noteq> 0 then - EBUSY
      else if uint (hw_feature_in dev t 1) AND FT260_I2C_STATUS_ERROR \<noteq> 0 then - EIO
      else if uint (hw_feature_in dev t 1) AND FT260_I2C_STATUS_CTRL_IDLE \<noteq> 0 then 0
      else - EIO)"

definition is_i2c_data_report :: "buf \<Rightarrow> bool" where
  "is_i2c_data_report data \<longleftrightarrow>
     FT260_I2C_REPORT_MIN \<le> uint (data 0) \<and> uint (data 0) \<le> FT260_I2C_REPORT_MAX"

definition is_uart_data_report :: "buf \<Rightarrow> bool" where
  "is_uart_data_report data \<longleftrightarrow>
     FT260_UART_REPORT_MIN \<le> uint (data 0) \<and> uint (data 0) \<le> FT260_UART_REPORT_MAX"

definition i2c_payload :: "buf \<Rightarrow> u8 list" where
  \<comment> \<open>the data bytes an input report carries for a pending I2C read, none if it is no I2C data report\<close>
  "i2c_payload data =
     (if is_i2c_data_report data then bytes (at_off data 2) (unat (data 1)) else [])"

fun deliver :: "ft260_device \<Rightarrow> buf list \<Rightarrow> ft260_device" where
  \<comment> \<open>the device context after the transport has delivered the input reports, one after the other\<close>
  "deliver dev [] = dev"
| "deliver dev (r # rs) = deliver (snd (ft260_raw_event dev r FT260_REPORT_MAX_LENGTH)) rs"

definition i2c_data :: "buf list \<Rightarrow> u8 list" where
  \<comment> \<open>all I2C data bytes delivered by a sequence of input reports, in order of delivery\<close>
  "i2c_data rs = concat (map i2c_payload rs)"

definition get_unaligned_le32 :: "u8 list \<Rightarrow> u32" where
  \<comment> \<open>how the receiver of the report reads the four bytes: least significant first\<close>
  "get_unaligned_le32 bs =
     ucast (bs ! 0) OR push_bit 8 (ucast (bs ! 1)) OR push_bit 16 (ucast (bs ! 2)) OR
     push_bit 24 (ucast (bs ! 3))"

text \<open>
  A tty layer for the examples: the baud rate is the \<open>c_ospeed\<close> field (as with
  \<open>BOTHER\<close>), and encoding a rate stores it in both speed fields.
\<close>

definition example_baud_rate :: "ktermios \<Rightarrow> u32" where
  "example_baud_rate termios = c_ospeed termios"

definition example_encode_baud_rate :: "ktermios \<Rightarrow> u32 \<Rightarrow> u32 \<Rightarrow> ktermios" where
  "example_encode_baud_rate termios ibaud obaud = termios\<lparr>c_ispeed := ibaud, c_ospeed := obaud\<rparr>"

section \<open>Example devices\<close>

text \<open>
  A bridge in good order: every allocation succeeds, every report is accepted, and every
  status request is answered with \<open>CTRL_IDLE\<close> at a bus clock of 100 kHz. The device
  delivers no input report, and memory and buffers are zeroed.
\<close>

definition idle_bridge :: ft260_device where
  "idle_bridge =
     \<lparr>ft260_is_serial = 0, xmit_fifo = [], icount_tx = 0, icount_rx = 0, wait = 0,
      write_buf = (\<lambda>_. 0), read_buf = 0, read_idx = 0, read_len = 0, clock = 100,
      mem = (\<lambda>_. 0), calls = [],
      kmalloc_ok = (\<lambda>_. True), hw_output_report = (\<lambda>_. 64), hw_raw_request = (\<lambda>_. 5),
      hw_feature_in = (\<lambda>_. buf_of [0xC0, 0x20, 100, 0, 0]), hw_power = (\<lambda>_. 0),
      hw_input = (\<lambda>_. []), tty_present = (\<lambda>_. True), tty_flip_room = (\<lambda>_. 512)\<rparr>"

text \<open>
  Two bridges whose status byte has several bits set: \<open>ERROR\<close> with \<open>BUS_BUSY\<close> (0x42),
  and \<open>ADDR_NO_ACK\<close> with \<open>CTRL_IDLE\<close> (0x24).
\<close>

definition error_busy_bridge :: ft260_device where
  "error_busy_bridge = idle_bridge\<lparr>hw_feature_in := (\<lambda>_. buf_of [0xC0, 0x42, 100, 0, 0])\<rparr>"

definition no_ack_idle_bridge :: ft260_device where
  "no_ack_idle_bridge = idle_bridge\<lparr>hw_feature_in := (\<lambda>_. buf_of [0xC0, 0x24, 100, 0, 0])\<rparr>"

text \<open>
  Input reports for the examples: an I2C data report with two bytes, and a sequence that
  starts with it and goes on with 257 I2C data reports whose length field is 255.
\<close>

definition two_byte_report :: buf where
  "two_byte_report = buf_of [0xD0, 2, 0xAA, 0xBB]"

definition long_report :: buf where
  "long_report = buf_of [0xDE, 0xFF]"

definition overrun_reports :: "buf list" where
  "overrun_reports = two_byte_report # replicate 257 long_report"



section \<open>Basic facts about the log and the transport wrappers\<close>

lemma now_log_call [simp]: "now (log_call c dev) = Suc (now dev)"
  by (simp add: now_def log_call_def)

lemma calls_log_call [simp]: "calls (log_call c dev) = calls dev @ [c]"
  by (simp add: log_call_def)

lemma env_log_call [simp]:
  "kmalloc_ok (log_call c dev) = kmalloc_ok dev"
  "hw_output_report (log_call c dev) = hw_output_report dev"
  "hw_raw_request (log_call c dev) = hw_raw_request dev"
  "hw_feature_in (log_call c dev) = hw_feature_in dev"
  "hw_power (log_call c dev) = hw_power dev"
  "hw_input (log_call c dev) = hw_input dev"
  "tty_present (log_call c dev) = tty_present dev"
  "tty_flip_room (log_call c dev) = tty_flip_room dev"
  by (simp_all add: log_call_def)

lemma dev_log_call [simp]:
  "clock (log_call c dev) = clock dev"
  "mem (log_call c dev) = mem dev"
  "read_buf (log_call c dev) = read_buf dev"
  "read_idx (log_call c dev) = read_idx dev"
  "read_len (log_call c dev) = read_len dev"
  "wait (log_call c dev) = wait dev"
  "write_buf (log_call c dev) = write_buf dev"
  "xmit_fifo (log_call c dev) = xmit_fifo dev"
  "icount_tx (log_call c dev) = icount_tx dev"
  "icount_rx (log_call c dev) = icount_rx dev"
  by (simp_all add: log_call_def)

lemma now_update [simp]:
  "now (dev\<lparr>clock := c\<rparr>) = now dev"
  "now (dev\<lparr>write_buf := w\<rparr>) = now dev"
  "now (dev\<lparr>wait := n\<rparr>) = now dev"
  "now (dev\<lparr>mem := m\<rparr>) = now dev"
  "now (dev\<lparr>read_idx := i\<rparr>) = now dev"
  "now (dev\<lparr>read_len := l\<rparr>) = now dev"
  "now (dev\<lparr>read_buf := b\<rparr>) = now dev"
  "now (dev\<lparr>icount_rx := x\<rparr>) = now dev"
  by (simp_all add: now_def)

lemma output_report_eq:
  "ft260_hid_output_report dev data len =
    (let r = (if kmalloc_ok dev (now dev) then hw_output_report dev (now dev) else - ENOMEM)
     in (r, log_call (OutputReport (bytes data len) r) dev))"
  by (simp add: ft260_hid_output_report_def Let_def)

lemma reset_eq:
  "ft260_i2c_reset dev =
    (let r = (if kmalloc_ok dev (now dev) then hw_raw_request dev (now dev) else - ENOMEM)
     in (r, log_call (FeatureSet [0xA1, 0x20] r) dev))"
  by (simp add: ft260_i2c_reset_def ft260_hid_feature_report_set_def bytes_def buf_of_def
        Let_def upt_rec)

lemma xfer_status_calls:
  "\<exists>r. calls (snd (ft260_xfer_status dev)) = calls dev @ [FeatureGet 0xC0 5 r]"
  by (auto simp add: ft260_xfer_status_def ft260_hid_feature_report_get_def Let_def)

lemma xfer_status_now [simp]:
  "now (snd (ft260_xfer_status dev)) = Suc (now dev)"
  using xfer_status_calls[of dev] by (auto simp: now_def)

lemma xfer_status_retry_calls:
  "\<exists>evs. calls (snd (ft260_xfer_status_retry dev t)) = calls dev @ evs"
proof (induction dev t rule: ft260_xfer_status_retry.induct)
  case (1 dev tr)
  obtain ret dev1 where st: "ft260_xfer_status dev = (ret, dev1)"
    by (cases "ft260_xfer_status dev")
  from xfer_status_calls[of dev] st obtain r where
    c1: "calls dev1 = calls dev @ [FeatureGet 0xC0 5 r]" by auto
  show ?case
  proof (cases "ret \<noteq> - EAGAIN")
    case True
    then show ?thesis using st c1 by (subst ft260_xfer_status_retry.simps) simp
  next
    case False
    show ?thesis
    proof (cases "tr - 1")
      case 0
      then show ?thesis using st c1 False by (subst ft260_xfer_status_retry.simps) simp
    next
      case (Suc t)
      from "1.IH"[OF st[symmetric] _ Suc] False
      obtain evs where "calls (snd (ft260_xfer_status_retry dev1 (Suc t))) = calls dev1 @ evs"
        by auto
      then show ?thesis using st c1 False Suc by (subst ft260_xfer_status_retry.simps) simp
    qed
  qed
qed

section \<open>The wait before the status poll\<close>

text \<open>
  Claim C10. After a report has been sent, the status check computes its wait as
  \<open>10000 / clock * len\<close>: the division by the cached bus clock comes first, then the
  multiplication by the report length, and that many microseconds are slept. Nothing
  guards the divisor: once the send has succeeded, the check ends in a division trap
  exactly when the cached clock is zero. When the send fails, the division is not reached.
\<close>

theorem check_status_wait_time:
  "(kmalloc_ok dev (now dev) \<and> 0 \<le> hw_output_report dev (now dev) \<longrightarrow>
      (ft260_hid_output_report_check_status dev data len = Inl DivideError \<longleftrightarrow> clock dev = 0) \<and>
      (clock dev \<noteq> 0 \<longrightarrow>
        (\<exists>ret dev'. ft260_hid_output_report_check_status dev data len = Inr (ret, dev') \<and>
           calls dev' ! Suc (now dev) =
             UsleepRange (10000 div uint (clock dev) * len)
                         (10000 div uint (clock dev) * len + 100)))) \<and>
   (\<not> (kmalloc_ok dev (now dev) \<and> 0 \<le> hw_output_report dev (now dev)) \<longrightarrow>
      ft260_hid_output_report_check_status dev data len \<noteq> Inl DivideError)"
proof (intro conjI impI)
  assume ok: "kmalloc_ok dev (now dev) \<and> 0 \<le> hw_output_report dev (now dev)"
  show "(ft260_hid_output_report_check_status dev data len = Inl DivideError) = (clock dev = 0)"
    using ok
    by (auto simp add: ft260_hid_output_report_check_status_def output_report_eq Let_def
             split: prod.splits)
next
  assume ok: "kmalloc_ok dev (now dev) \<and> 0 \<le> hw_output_report dev (now dev)"
    and nz: "clock dev \<noteq> 0"
  define usec where "usec = 10000 div uint (clock dev) * len"
  define dev2 where "dev2 = log_call (UsleepRange usec (usec + 100))
     (log_call (OutputReport (bytes data (nat len)) (hw_output_report dev (now dev))) dev)"
  obtain ret dev3 where r: "ft260_xfer_status_retry dev2 3 = (ret, dev3)"
    by (cases "ft260_xfer_status_retry dev2 3")
  from xfer_status_retry_calls[of dev2 3] r obtain evs where
    c3: "calls dev3 = calls dev2 @ evs" by auto
  have c2: "calls dev2 =
      calls dev @ [OutputReport (bytes data (nat len)) (hw_output_report dev (now dev)),
                   UsleepRange usec (usec + 100)]"
    by (simp add: dev2_def)
  have nth3: "calls dev3 ! Suc (now dev) = UsleepRange usec (usec + 100)"
    by (simp add: c3 c2 now_def nth_append)
  have nth4: "calls (snd (ft260_i2c_reset dev3)) ! Suc (now dev) = UsleepRange usec (usec + 100)"
    by (simp add: reset_eq Let_def c3 c2 now_def nth_append)
  have "ft260_hid_output_report_check_status dev data len =
      (if ret = 0 \<or> ret = - EBUSY then Inr (0, dev3) else Inr (- EIO, snd (ft260_i2c_reset dev3)))"
    using ok nz r
    by (simp add: ft260_hid_output_report_check_status_def output_report_eq Let_def
          dev2_def usec_def)
  then show "\<exists>ret dev'. ft260_hid_output_report_check_status dev data len = Inr (ret, dev') \<and>
           calls dev' ! Suc (now dev) =
             UsleepRange (10000 div uint (clock dev) * len)
                         (10000 div uint (clock dev) * len + 100)"
    using nth3 nth4 by (auto simp: usec_def)
next
  assume "\<not> (kmalloc_ok dev (now dev) \<and> 0 \<le> hw_output_report dev (now dev))"
  then show "ft260_hid_output_report_check_status dev data len \<noteq> Inl DivideError"
    by (auto simp add: ft260_hid_output_report_check_status_def output_report_eq Let_def
             split: prod.splits)
qed

theorem check_status_wait_time_witness:
  "ft260_hid_output_report_check_status (idle_bridge\<lparr>clock := 0\<rparr>) (\<lambda>_. 0) 10 = Inl DivideError \<and>
   (\<exists>ret dev'. ft260_hid_output_report_check_status (idle_bridge\<lparr>clock := 3000\<rparr>) (\<lambda>_. 0) 10
        = Inr (ret, dev') \<and>
      calls dev' ! 1 = UsleepRange 30 130) \<and>
   ft260_hid_output_report_check_status (idle_bridge\<lparr>clock := 0, kmalloc_ok := (\<lambda>_. False)\<rparr>)
      (\<lambda>_. 0) 10 \<noteq> Inl DivideError"
  using check_status_wait_time[of "idle_bridge\<lparr>clock := 0\<rparr>" "\<lambda>_. 0" 10]
    check_status_wait_time[of "idle_bridge\<lparr>clock := 3000\<rparr>" "\<lambda>_. 0" 10]
    check_status_wait_time[of "idle_bridge\<lparr>clock := 0, kmalloc_ok := (\<lambda>_. False)\<rparr>" "\<lambda>_. 0" 10]
  by (simp add: idle_bridge_def now_def)


lemma feature_report_get_shape:
  "\<exists>r d. ft260_hid_feature_report_get dev rid data len = (r, d, log_call (FeatureGet rid len r) dev)"
  by (simp add: ft260_hid_feature_report_get_def Let_def)

lemma xfer_status_shape:
  "\<exists>c r. snd (ft260_xfer_status dev) = dev\<lparr>clock := c, calls := calls dev @ [FeatureGet 0xC0 5 r]\<rparr>"
proof -
  obtain r d where g: "ft260_hid_feature_report_get dev 0xC0 (\<lambda>_. 0) 5
      = (r, d, log_call (FeatureGet 0xC0 5 r) dev)"
    using feature_report_get_shape by blast
  have "snd (ft260_xfer_status dev) =
      (if r < 0 then log_call (FeatureGet 0xC0 5 r) dev
       else (log_call (FeatureGet 0xC0 5 r) dev)\<lparr>clock := le16_to_cpu (d 2) (d 3)\<rparr>)"
    by (simp add: ft260_xfer_status_def g Let_def)
  also have "\<dots> = dev\<lparr>clock := (if r < 0 then clock dev else le16_to_cpu (d 2) (d 3)),
       calls := calls dev @ [FeatureGet 0xC0 5 r]\<rparr>"
    by (simp add: log_call_def)
  finally show ?thesis by blast
qed

lemma xfer_status_retry_shape:
  "\<exists>c rs. rs \<noteq> [] \<and> length rs \<le> max 1 t \<and>
     snd (ft260_xfer_status_retry dev t) =
       dev\<lparr>clock := c, calls := calls dev @ map (FeatureGet 0xC0 5) rs\<rparr>"
proof (induction dev t rule: ft260_xfer_status_retry.induct)
  case (1 dev tr)
  obtain ret dev1 where st: "ft260_xfer_status dev = (ret, dev1)"
    by (cases "ft260_xfer_status dev")
  from xfer_status_shape[of dev] st obtain c r where
    d1: "dev1 = dev\<lparr>clock := c, calls := calls dev @ [FeatureGet 0xC0 5 r]\<rparr>" by auto
  show ?case
  proof (cases "ret \<noteq> - EAGAIN \<or> tr - 1 = 0")
    case True
    then have "snd (ft260_xfer_status_retry dev tr) = dev1"
      using st by (subst ft260_xfer_status_retry.simps) auto
    then have "[r] \<noteq> [] \<and> length [r] \<le> max 1 tr \<and> snd (ft260_xfer_status_retry dev tr) =
       dev\<lparr>clock := c, calls := calls dev @ map (FeatureGet 0xC0 5) [r]\<rparr>"
      using d1 by simp
    then show ?thesis by blast
  next
    case False
    then obtain t where t: "tr - 1 = Suc t" by (cases "tr - 1") auto
    from False have e: "ret = - EAGAIN" by simp
    from "1.IH"[OF st[symmetric] _ t] e
    obtain c' rs where rs: "rs \<noteq> []" "length rs \<le> max 1 (Suc t)"
      "snd (ft260_xfer_status_retry dev1 (Suc t)) =
        dev1\<lparr>clock := c', calls := calls dev1 @ map (FeatureGet 0xC0 5) rs\<rparr>" by auto
    have "snd (ft260_xfer_status_retry dev tr) = snd (ft260_xfer_status_retry dev1 (Suc t))"
      using st e t by (subst ft260_xfer_status_retry.simps) simp
    then have "snd (ft260_xfer_status_retry dev tr) =
        dev\<lparr>clock := c', calls := calls dev @ map (FeatureGet 0xC0 5) (r # rs)\<rparr>"
      using rs(3) by (simp add: d1)
    moreover have "r # rs \<noteq> [] \<and> length (r # rs) \<le> max 1 tr" using rs(2) t by simp
    ultimately show ?thesis by blast
  qed
qed

text \<open>A status request that is answered in full, with the given bus status.\<close>

lemma xfer_status_answered:
  assumes "kmalloc_ok dev (now dev)" "hw_raw_request dev (now dev) = 5"
    and "uint (hw_feature_in dev (now dev) 1) = b"
  shows "\<exists>c. snd (ft260_xfer_status dev) =
            dev\<lparr>clock := c, calls := calls dev @ [FeatureGet 0xC0 5 5]\<rparr>"
    and "b = FT260_I2C_STATUS_CTRL_BUSY \<Longrightarrow> fst (ft260_xfer_status dev) = - EAGAIN"
    and "b = FT260_I2C_STATUS_BUS_BUSY \<Longrightarrow> fst (ft260_xfer_status dev) = - EBUSY"
    and "b = FT260_I2C_STATUS_CTRL_IDLE \<Longrightarrow> fst (ft260_xfer_status dev) = 0"
    and "b = FT260_I2C_STATUS_ERROR \<or> b = FT260_I2C_STATUS_ADDR_NO_ACK \<or>
         b = FT260_I2C_STATUS_DATA_NO_ACK \<or> b = FT260_I2C_STATUS_ARBITR_LOST
         \<Longrightarrow> fst (ft260_xfer_status dev) = - EIO"
proof -
  have g: "ft260_hid_feature_report_get dev 0xC0 (\<lambda>_. 0) 5 =
      (5, memcpy (\<lambda>_. 0) 0 (hw_feature_in dev (now dev)) 5, log_call (FeatureGet 0xC0 5 5) dev)"
    using assms(1,2) by (simp add: ft260_hid_feature_report_get_def Let_def)
  have b: "uint (memcpy (\<lambda>_. 0) 0 (hw_feature_in dev (now dev)) 5 (Suc 0)) = b"
    using assms(3) by (simp add: memcpy_def)
  have "snd (ft260_xfer_status dev) = (log_call (FeatureGet 0xC0 5 5) dev)
      \<lparr>clock := le16_to_cpu (hw_feature_in dev (now dev) 2) (hw_feature_in dev (now dev) 3)\<rparr>"
    by (simp add: ft260_xfer_status_def g Let_def memcpy_def)
  also have "\<dots> = dev\<lparr>clock := le16_to_cpu (hw_feature_in dev (now dev) 2)
      (hw_feature_in dev (now dev) 3), calls := calls dev @ [FeatureGet 0xC0 5 5]\<rparr>"
    by (simp add: log_call_def)
  finally show "\<exists>c. snd (ft260_xfer_status dev) =
            dev\<lparr>clock := c, calls := calls dev @ [FeatureGet 0xC0 5 5]\<rparr>"
    by blast
  show "b = FT260_I2C_STATUS_CTRL_BUSY \<Longrightarrow> fst (ft260_xfer_status dev) = - EAGAIN"
    by (simp add: ft260_xfer_status_def g Let_def b)
  show "b = FT260_I2C_STATUS_BUS_BUSY \<Longrightarrow> fst (ft260_xfer_status dev) = - EBUSY"
    by (simp add: ft260_xfer_status_def g Let_def b)
  show "b = FT260_I2C_STATUS_CTRL_IDLE \<Longrightarrow> fst (ft260_xfer_status dev) = 0"
    by (simp add: ft260_xfer_status_def g Let_def b)
  show "b = FT260_I2C_STATUS_ERROR \<or> b = FT260_I2C_STATUS_ADDR_NO_ACK \<or>
         b = FT260_I2C_STATUS_DATA_NO_ACK \<or> b = FT260_I2C_STATUS_ARBITR_LOST
         \<Longrightarrow> fst (ft260_xfer_status dev) = - EIO"
    by (auto simp add: ft260_xfer_status_def g Let_def b)
qed


section \<open>UART line configuration: what is sent\<close>

lemma get_le32_bytes: "get_unaligned_le32 (le32_bytes x) = x"
  unfolding get_unaligned_le32_def le32_bytes_def
  apply (rule bit_word_eqI)
  apply (auto simp add: bit_simps)
  subgoal for n by (cases "n < 24") simp_all
  done

lemma bytes11: "bytes ((buf_of [a0, a1, a2, a3, a4, a5, a6, a7, a8, a9, a10])(0 := y)) 11 =
   [y, a1, a2, a3, a4, a5, a6, a7, a8, a9, a10]"
  by (simp add: bytes_def buf_of_def upt_rec)


lemma feature_report_set_eq:
  "ft260_hid_feature_report_set dev data len =
    (let r = (if kmalloc_ok dev (now dev) then hw_raw_request dev (now dev) else - ENOMEM)
     in (r, log_call (FeatureSet (bytes (data(0 := 0xA1)) len) r) dev))"
  by (simp add: ft260_hid_feature_report_set_def Let_def)

lemma change_speed_request:
  "ft260_uart_change_speed tty_termios_baud_rate tty_encode_baud_rate port termios =
   (let csize = c_cflag termios AND CSIZE;
        termios1 = (if csize = CS5 \<or> csize = CS6 then termios\<lparr>c_cflag := CS8\<rparr> else termios);
        requested = tty_termios_baud_rate termios1;
        bad = (requested = 0 \<or> uint requested < FT260_CFG_BAUD_MIN \<or>
               uint requested > FT260_CFG_BAUD_MAX);
        req = \<lparr>req_report = 0xA1, req_request = 0x41, req_flow_ctrl = 0x04,
               req_baudrate = le32_bytes (if bad then 9600 else requested),
               req_data_bit = (if csize = CS7 then 7 else 8),
               req_parity = (if c_cflag termios1 AND PARENB \<noteq> 0
                             then (if c_cflag termios1 AND PARODD \<noteq> 0 then 1 else 2) else 0),
               req_stop_bit = (if c_cflag termios1 AND CSTOPB \<noteq> 0 then 2 else 0),
               req_breaking = 0\<rparr>
    in case ft260_hid_feature_report_set port (buf_of (request_bytes req)) 11 of
         (ret, port1) \<Rightarrow>
           (ret, if bad then tty_encode_baud_rate termios1 9600 9600 else termios1, port1))"
proof -
  define termios1 where "termios1 =
    (if c_cflag termios AND CSIZE = CS5 \<or> c_cflag termios AND CSIZE = CS6
     then termios\<lparr>c_cflag := CS8\<rparr> else termios)"
  define bad where "bad \<longleftrightarrow> (tty_termios_baud_rate termios1 = 0 \<or>
     uint (tty_termios_baud_rate termios1) < FT260_CFG_BAUD_MIN \<or>
     uint (tty_termios_baud_rate termios1) > FT260_CFG_BAUD_MAX)"
  consider (cs7) "c_cflag termios AND CSIZE = CS7"
    | (cs56) "c_cflag termios AND CSIZE \<noteq> CS7"
        "c_cflag termios AND CSIZE = CS5 \<or> c_cflag termios AND CSIZE = CS6"
    | (cs8) "c_cflag termios AND CSIZE \<noteq> CS7"
        "\<not> (c_cflag termios AND CSIZE = CS5 \<or> c_cflag termios AND CSIZE = CS6)"
    by blast
  then show ?thesis
  proof cases
    case cs7
    then have t1: "termios1 = termios" by (simp add: termios1_def)
    show ?thesis
    proof (cases bad)
      case True
      then show ?thesis using cs7 unfolding bad_def t1
        by (simp add: ft260_uart_change_speed_def Let_def cpu_to_le32_def)
    next
      case False
      then show ?thesis using cs7 unfolding bad_def t1
        by (simp add: ft260_uart_change_speed_def Let_def cpu_to_le32_def)
    qed
  next
    case cs56
    then have t1: "termios1 = termios\<lparr>c_cflag := CS8\<rparr>" by (simp add: termios1_def)
    show ?thesis
    proof (cases bad)
      case True
      then show ?thesis using cs56 unfolding bad_def t1
        by (simp add: ft260_uart_change_speed_def Let_def cpu_to_le32_def)
    next
      case False
      then show ?thesis using cs56 unfolding bad_def t1
        by (simp add: ft260_uart_change_speed_def Let_def cpu_to_le32_def)
    qed
  next
    case cs8
    then have t1: "termios1 = termios" by (simp add: termios1_def)
    show ?thesis
    proof (cases bad)
      case True
      then show ?thesis using cs8 unfolding bad_def t1
        by (simp add: ft260_uart_change_speed_def Let_def cpu_to_le32_def)
    next
      case False
      then show ?thesis using cs8 unfolding bad_def t1
        by (simp add: ft260_uart_change_speed_def Let_def cpu_to_le32_def)
    qed
  qed
qed


lemma request_sent:
  "ft260_hid_feature_report_set port
     (buf_of (request_bytes \<lparr>req_report = a0, req_request = a1, req_flow_ctrl = a2,
        req_baudrate = le32_bytes b, req_data_bit = a7, req_parity = a8, req_stop_bit = a9,
        req_breaking = a10\<rparr>)) 11 =
   (let r = (if kmalloc_ok port (now port) then hw_raw_request port (now port) else - ENOMEM)
    in (r, log_call (FeatureSet ([0xA1, a1, a2] @ le32_bytes b @ [a7, a8, a9, a10]) r) port))"
  by (simp add: feature_report_set_eq request_bytes_def le32_bytes_def bytes11 Let_def)

text \<open>
  Claim C8. The baud rate requested through termios is what \<open>tty_termios_baud_rate\<close>
  returns (after a 5- or 6-bit character size has reset \<open>c_cflag\<close> to \<open>CS8\<close>). A rate of
  0, below 1200 or above 12000000 is replaced by 9600, and bytes 3 to 6 of the
  configuration report that is sent hold the resulting rate, least significant byte
  first, at the unaligned offset 3. Byte 7, the data bits, is 7 for \<open>CS7\<close> and 8 for every
  other character size.
\<close>

theorem change_speed_baud_and_data_bits:
  "let csize = c_cflag termios AND CSIZE;
       termios1 = (if csize = CS5 \<or> csize = CS6 then termios\<lparr>c_cflag := CS8\<rparr> else termios);
       requested = tty_termios_baud_rate termios1;
       baud = (if uint requested < FT260_CFG_BAUD_MIN \<or> uint requested > FT260_CFG_BAUD_MAX
               then 9600 else requested);
       data_bit = (if csize = CS7 then 7 else 8)
   in \<exists>ret termios' port' report.
        ft260_uart_change_speed tty_termios_baud_rate tty_encode_baud_rate port termios =
          (ret, termios', port') \<and>
        calls port' = calls port @ [FeatureSet report ret] \<and>
        length report = 11 \<and>
        take 2 report = [0xA1, 0x41] \<and>
        take 4 (drop 3 report) = le32_bytes baud \<and>
        get_unaligned_le32 (take 4 (drop 3 report)) = baud \<and>
        report ! 7 = data_bit"
proof -
  have z: "(x = 0 \<or> uint x < 1200 \<or> 12000000 < uint x) = (uint x < 1200 \<or> 12000000 < uint x)"
    for x :: u32
    by auto
  have len: "length (le32_bytes x) = 4" for x by (simp add: le32_bytes_def)
  show ?thesis
    unfolding change_speed_request Let_def request_sent z
    by (simp add: len get_le32_bytes nth_append)
qed

theorem change_speed_baud_and_data_bits_witness:
  "\<exists>ret termios' port' report.
     ft260_uart_change_speed example_baud_rate example_encode_baud_rate idle_bridge
       \<lparr>c_cflag = CS5, c_ispeed = 0, c_ospeed = 0\<rparr> = (ret, termios', port') \<and>
     calls port' = [FeatureSet report ret] \<and>
     length report = 11 \<and>
     take 2 report = [0xA1, 0x41] \<and>
     take 4 (drop 3 report) = [0x80, 0x25, 0, 0] \<and>
     get_unaligned_le32 (take 4 (drop 3 report)) = 9600 \<and>
     report ! 7 = 8"
proof -
  have "le32_bytes 9600 = [0x80, 0x25, 0, 0]"
    by (simp add: le32_bytes_def)
  then show ?thesis
    using change_speed_baud_and_data_bits[of "\<lparr>c_cflag = CS5, c_ispeed = 0, c_ospeed = 0\<rparr>"
      example_baud_rate example_encode_baud_rate idle_bridge]
    by (simp add: Let_def example_baud_rate_def idle_bridge_def)
qed

text \<open>
  Claim C9. Whatever termios requests (with or without \<open>CRTSCTS\<close>), byte 2 of the
  configuration report that is sent, the flow control, is \<open>FT260_CFG_FLOW_CTRL_NONE\<close>
  (4, the code the driver comments as ``No flow ctrl'': flow control is off), and byte 10,
  the break flag, is \<open>FT260_CFG_BREAKING_NO\<close> (0).
\<close>

theorem change_speed_flow_ctrl_and_break:
  "\<exists>ret termios' port' report.
     ft260_uart_change_speed tty_termios_baud_rate tty_encode_baud_rate port termios =
       (ret, termios', port') \<and>
     calls port' = calls port @ [FeatureSet report ret] \<and>
     length report = 11 \<and>
     report ! 2 = of_int FT260_CFG_FLOW_CTRL_NONE \<and>
     report ! 10 = of_int FT260_CFG_BREAKING_NO"
proof -
  have len: "length (le32_bytes x) = 4" for x by (simp add: le32_bytes_def)
  show ?thesis
    unfolding change_speed_request Let_def request_sent
    by (simp add: len nth_append)
qed

text \<open>
  A request with \<open>CRTSCTS\<close> at 115200 baud and 8 data bits: the report that is sent
  carries flow control 4 and break 0.
\<close>

lemma change_speed_rts_cts_example:
  "calls (snd (snd (ft260_uart_change_speed example_baud_rate example_encode_baud_rate idle_bridge
      \<lparr>c_cflag = CRTSCTS OR CS8, c_ispeed = 115200, c_ospeed = 115200\<rparr>))) =
     [FeatureSet [0xA1, 0x41, 0x04, 0x00, 0xC2, 0x01, 0x00, 0x08, 0x00, 0x00, 0x00] 5]"
  unfolding change_speed_request Let_def request_sent
  by (simp add: example_baud_rate_def le32_bytes_def idle_bridge_def now_def)


section \<open>The input-report dispatcher\<close>


lemma raw_event_i2c:
  assumes "is_i2c_data_report data"
  shows "ft260_raw_event dev data sz =
     (1, dev\<lparr>mem := memcpy (mem dev) (read_buf dev + unat (read_idx dev)) (at_off data 2)
                      (unat (data 1)),
              read_idx := read_idx dev + ucast (data 1),
              wait := (if read_idx dev + ucast (data 1) = read_len dev then wait dev + 1
                       else wait dev)\<rparr>)"
  using assms by (simp add: ft260_raw_event_def Let_def complete_def is_i2c_data_report_def)

lemma uart_receive_chars_shape:
  "\<exists>r x evs. ft260_uart_receive_chars dev data n =
      (r, dev\<lparr>icount_rx := x, calls := calls dev @ evs\<rparr>)"
proof (cases "uint n > FT260_RD_DATA_MAX")
  case True
  then have "ft260_uart_receive_chars dev data n = (- EBADR, dev)"
    by (simp add: ft260_uart_receive_chars_def)
  then show ?thesis
    by (intro exI[of _ "- EBADR"] exI[of _ "icount_rx dev"] exI[of _ "[]"]) simp
next
  case False
  define ret where "ret = int (min (unat n) (tty_flip_room dev (now dev)))"
  have "ft260_uart_receive_chars dev data n =
     (ret, dev\<lparr>icount_rx := icount_rx dev + of_int ret,
        calls := calls dev @ (TtyInsertFlipString (bytes data (unat n)) ret #
                   (if ret \<noteq> 0 then [TtyFlipBufferPush] else []))\<rparr>)"
    using False by (simp add: ft260_uart_receive_chars_def Let_def log_call_def ret_def)
  then show ?thesis by blast
qed

lemma raw_event_other:
  assumes "\<not> is_i2c_data_report data"
  shows "\<exists>r x evs. ft260_raw_event dev data sz =
      (r, dev\<lparr>icount_rx := x, calls := calls dev @ evs\<rparr>)"
proof -
  have triv: "\<exists>r x evs. (k, dev) = (r, dev\<lparr>icount_rx := x, calls := calls dev @ evs\<rparr>)" for k :: int
    by (intro exI[of _ k] exI[of _ "icount_rx dev"] exI[of _ "[]"]) simp
  consider (bad) "uint (data 1) > FT260_RD_DATA_MAX"
    | (uart) "\<not> uint (data 1) > FT260_RD_DATA_MAX"
        "FT260_UART_REPORT_MIN \<le> uint (data 0) \<and> uint (data 0) \<le> FT260_UART_REPORT_MAX"
    | (unknown) "\<not> uint (data 1) > FT260_RD_DATA_MAX"
        "\<not> (FT260_UART_REPORT_MIN \<le> uint (data 0) \<and> uint (data 0) \<le> FT260_UART_REPORT_MAX)"
    by blast
  then show ?thesis
  proof cases
    case bad
    then have "ft260_raw_event dev data sz = (- EBADR, dev)"
      using assms by (auto simp add: ft260_raw_event_def Let_def is_i2c_data_report_def)
    then show ?thesis using triv by simp
  next
    case uart
    then have "ft260_raw_event dev data sz = ft260_uart_receive_chars dev (at_off data 2) (data 1)"
      using assms by (auto simp add: ft260_raw_event_def Let_def is_i2c_data_report_def)
    then show ?thesis using uart_receive_chars_shape by simp
  next
    case unknown
    then have "ft260_raw_event dev data sz = (0, dev)"
      using assms by (auto simp add: ft260_raw_event_def Let_def is_i2c_data_report_def)
    then show ?thesis using triv by simp
  qed
qed


lemma deliver_append: "deliver dev (xs @ ys) = deliver (deliver dev xs) ys"
  by (induction xs arbitrary: dev) simp_all

lemma i2c_data_simps [simp]:
  "i2c_data [] = []"
  "i2c_data (r # rs) = i2c_payload r @ i2c_data rs"
  "i2c_data (xs @ ys) = i2c_data xs @ i2c_data ys"
  by (simp_all add: i2c_data_def)

lemma length_bytes [simp]: "length (bytes p n) = n"
  by (simp add: bytes_def)

lemma nth_bytes [simp]: "i < n \<Longrightarrow> bytes p n ! i = p i"
  by (simp add: bytes_def)

text \<open>What one delivered report does to the pending read.\<close>

lemma raw_event_read_state:
  "read_buf (snd (ft260_raw_event dev r sz)) = read_buf dev"
  "read_len (snd (ft260_raw_event dev r sz)) = read_len dev"
  "read_idx (snd (ft260_raw_event dev r sz)) = read_idx dev + of_nat (length (i2c_payload r))"
  "wait (snd (ft260_raw_event dev r sz)) =
     (if is_i2c_data_report r \<and> read_idx dev + of_nat (length (i2c_payload r)) = read_len dev
      then wait dev + 1 else wait dev)"
proof -
  show "read_buf (snd (ft260_raw_event dev r sz)) = read_buf dev"
    using raw_event_i2c[of r dev sz] raw_event_other[of r dev sz]
    by (cases "is_i2c_data_report r") auto
  show "read_len (snd (ft260_raw_event dev r sz)) = read_len dev"
    using raw_event_i2c[of r dev sz] raw_event_other[of r dev sz]
    by (cases "is_i2c_data_report r") auto
  show "read_idx (snd (ft260_raw_event dev r sz)) = read_idx dev + of_nat (length (i2c_payload r))"
    using raw_event_i2c[of r dev sz] raw_event_other[of r dev sz]
    by (cases "is_i2c_data_report r") (auto simp add: i2c_payload_def)
  show "wait (snd (ft260_raw_event dev r sz)) =
     (if is_i2c_data_report r \<and> read_idx dev + of_nat (length (i2c_payload r)) = read_len dev
      then wait dev + 1 else wait dev)"
    using raw_event_i2c[of r dev sz] raw_event_other[of r dev sz]
    by (cases "is_i2c_data_report r") (auto simp add: i2c_payload_def)
qed

lemma raw_event_mem:
  "mem (snd (ft260_raw_event dev r sz)) =
     memcpy (mem dev) (read_buf dev + unat (read_idx dev)) (buf_of (i2c_payload r))
       (length (i2c_payload r))"
proof (cases "is_i2c_data_report r")
  case True
  then show ?thesis
    by (auto simp add: raw_event_i2c i2c_payload_def memcpy_def buf_of_def at_off_def fun_eq_iff)
next
  case False
  with raw_event_other[of r dev sz] show ?thesis
    by (auto simp add: i2c_payload_def memcpy_def fun_eq_iff)
qed

lemma deliver_read_state:
  "read_buf (deliver dev rs) = read_buf dev \<and>
   read_len (deliver dev rs) = read_len dev \<and>
   read_idx (deliver dev rs) = read_idx dev + of_nat (length (i2c_data rs))"
  by (induction rs arbitrary: dev) (simp_all add: raw_event_read_state)


lemma wait_for_reports_signalled:
  "wait dev > 0 \<Longrightarrow> wait_for_reports dev rs = (True, dev\<lparr>wait := wait dev - 1\<rparr>)"
  by (cases rs) simp_all

lemma wait_for_reports_completed:
  assumes "wait dev = 0" and "wait_for_reports dev rs = (True, dev')"
  shows "\<exists>ps qs. rs = ps @ qs \<and> ps \<noteq> [] \<and> dev' = (deliver dev ps)\<lparr>wait := 0\<rparr> \<and>
           wait (deliver dev ps) = 1 \<and> (\<forall>k < length ps. wait (deliver dev (take k ps)) = 0)"
  using assms
proof (induction rs arbitrary: dev)
  case Nil
  then show ?case by simp
next
  case (Cons r rs)
  define dev1 where "dev1 = snd (ft260_raw_event dev r FT260_REPORT_MAX_LENGTH)"
  have w1: "wait dev1 = 0 \<or> wait dev1 = 1"
    using Cons.prems(1) by (simp add: dev1_def raw_event_read_state)
  have step: "wait_for_reports dev1 rs = (True, dev')"
    using Cons.prems by (simp add: dev1_def)
  from w1 show ?case
  proof
    assume z: "wait dev1 = 0"
    from Cons.IH[OF z step] obtain ps qs where
      ih: "rs = ps @ qs" "ps \<noteq> []" "dev' = (deliver dev1 ps)\<lparr>wait := 0\<rparr>"
        "wait (deliver dev1 ps) = 1" "\<forall>k < length ps. wait (deliver dev1 (take k ps)) = 0"
      by blast
    have "\<forall>k < length (r # ps). wait (deliver dev (take k (r # ps))) = 0"
    proof (intro allI impI)
      fix k assume k: "k < length (r # ps)"
      show "wait (deliver dev (take k (r # ps))) = 0"
      proof (cases k)
        case 0
        then show ?thesis using Cons.prems(1) by simp
      next
        case (Suc j)
        then show ?thesis using ih(5) k by (simp add: dev1_def)
      qed
    qed
    moreover have "r # rs = (r # ps) @ qs" using ih(1) by simp
    moreover have "dev' = (deliver dev (r # ps))\<lparr>wait := 0\<rparr>" "wait (deliver dev (r # ps)) = 1"
      using ih(3,4) by (simp_all add: dev1_def)
    ultimately show ?thesis by blast
  next
    assume o: "wait dev1 = 1"
    then have "wait_for_reports dev1 rs = (True, dev1\<lparr>wait := 0\<rparr>)"
      using wait_for_reports_signalled[of dev1 rs] by simp
    with step have d: "dev' = dev1\<lparr>wait := 0\<rparr>" by simp
    have "r # rs = [r] @ rs" "[r] \<noteq> []" by simp_all
    moreover have "dev' = (deliver dev [r])\<lparr>wait := 0\<rparr>" "wait (deliver dev [r]) = 1"
      using d o by (simp_all add: dev1_def)
    moreover have "\<forall>k < length [r]. wait (deliver dev (take k [r])) = 0"
      using Cons.prems(1) by simp
    ultimately show ?thesis by blast
  qed
qed

lemma wait_for_reports_timed_out:
  assumes "wait dev = 0" and "wait_for_reports dev rs = (False, dev')"
  shows "dev' = deliver dev rs \<and> (\<forall>k \<le> length rs. wait (deliver dev (take k rs)) = 0)"
  using assms
proof (induction rs arbitrary: dev)
  case Nil
  then show ?case by simp
next
  case (Cons r rs)
  define dev1 where "dev1 = snd (ft260_raw_event dev r FT260_REPORT_MAX_LENGTH)"
  have step: "wait_for_reports dev1 rs = (False, dev')"
    using Cons.prems by (simp add: dev1_def)
  have z: "wait dev1 = 0"
  proof (rule ccontr)
    assume "wait dev1 \<noteq> 0"
    then have "wait_for_reports dev1 rs = (True, dev1\<lparr>wait := wait dev1 - 1\<rparr>)"
      using wait_for_reports_signalled[of dev1 rs] by simp
    with step show False by simp
  qed
  from Cons.IH[OF z step] have ih: "dev' = deliver dev1 rs"
    "\<forall>k \<le> length rs. wait (deliver dev1 (take k rs)) = 0" by simp_all
  have "\<forall>k \<le> length (r # rs). wait (deliver dev (take k (r # rs))) = 0"
  proof (intro allI impI)
    fix k assume k: "k \<le> length (r # rs)"
    show "wait (deliver dev (take k (r # rs))) = 0"
    proof (cases k)
      case 0
      then show ?thesis using Cons.prems(1) by simp
    next
      case (Suc j)
      then show ?thesis using ih(2) k by (simp add: dev1_def)
    qed
  qed
  then show ?case using ih(1) by (simp add: dev1_def)
qed

text \<open>The completion is signalled by an I2C data report that brings the offset to the requested length.\<close>

lemma deliver_completes:
  assumes "ps \<noteq> []" and "wait (deliver dev ps) = 1"
    and "\<forall>k < length ps. wait (deliver dev (take k ps)) = 0"
  shows "is_i2c_data_report (last ps) \<and> read_idx (deliver dev ps) = read_len dev"
proof -
  define d where "d = deliver dev (butlast ps)"
  have ps: "ps = butlast ps @ [last ps]" using assms(1) by simp
  have "deliver dev ps = deliver d [last ps]"
    unfolding d_def by (subst ps) (simp only: deliver_append)
  then have dl: "deliver dev ps = snd (ft260_raw_event d (last ps) FT260_REPORT_MAX_LENGTH)" by simp
  have "length (butlast ps) < length ps" using assms(1) by simp
  from assms(3)[rule_format, OF this] have w0: "wait d = 0"
    by (simp add: d_def butlast_conv_take)
  have rl: "read_len d = read_len dev" by (simp add: d_def deliver_read_state)
  from assms(2) w0 have c: "is_i2c_data_report (last ps) \<and>
      read_idx d + of_nat (length (i2c_payload (last ps))) = read_len d"
    unfolding dl raw_event_read_state by (simp split: if_splits)
  then show ?thesis
    unfolding dl raw_event_read_state using rl by simp
qed

lemma unat_u16_add_of_nat:
  "unat (x :: u16) + n < 65536 \<Longrightarrow> unat (x + of_nat n) = unat x + n"
  by (simp add: unat_word_ariths unat_of_nat)

lemma deliver_mem:
  assumes "unat (read_idx dev) + length (i2c_data rs) < 65536"
  shows "(\<forall>i < length (i2c_data rs).
            mem (deliver dev rs) (read_buf dev + unat (read_idx dev) + i) = i2c_data rs ! i) \<and>
         (\<forall>a. a < read_buf dev + unat (read_idx dev) \<or>
               read_buf dev + unat (read_idx dev) + length (i2c_data rs) \<le> a \<longrightarrow>
               mem (deliver dev rs) a = mem dev a)"
  using assms
proof (induction rs arbitrary: dev)
  case Nil
  then show ?case by simp
next
  case (Cons r rs)
  define dev1 where "dev1 = snd (ft260_raw_event dev r FT260_REPORT_MAX_LENGTH)"
  define n where "n = length (i2c_payload r)"
  define base where "base = read_buf dev + unat (read_idx dev)"
  have tot: "unat (read_idx dev) + (n + length (i2c_data rs)) < 65536"
    using Cons.prems by (simp add: n_def)
  then have idx1: "unat (read_idx dev1) = unat (read_idx dev) + n"
    by (simp add: dev1_def raw_event_read_state n_def unat_u16_add_of_nat)
  have buf1: "read_buf dev1 = read_buf dev" by (simp add: dev1_def raw_event_read_state)
  have base1: "read_buf dev1 + unat (read_idx dev1) = base + n"
    by (simp add: idx1 buf1 base_def)
  have m1: "mem dev1 = memcpy (mem dev) base (buf_of (i2c_payload r)) n"
    by (simp add: dev1_def raw_event_mem n_def base_def)
  have "unat (read_idx dev1) + length (i2c_data rs) < 65536" using tot idx1 by simp
  from Cons.IH[OF this] have
    ih1: "\<And>i. i < length (i2c_data rs) \<Longrightarrow> mem (deliver dev1 rs) (base + n + i) = i2c_data rs ! i"
    and ih2: "\<And>a. a < base + n \<or> base + n + length (i2c_data rs) \<le> a \<Longrightarrow>
        mem (deliver dev1 rs) a = mem dev1 a"
    unfolding base1 by blast+
  have d: "deliver dev (r # rs) = deliver dev1 rs" by (simp add: dev1_def)
  have a: "mem (deliver dev (r # rs)) (base + i) = i2c_data (r # rs) ! i"
    if "i < length (i2c_data (r # rs))" for i
  proof (cases "i < n")
    case True
    then have "mem (deliver dev1 rs) (base + i) = mem dev1 (base + i)" using ih2 by simp
    also have "\<dots> = i2c_payload r ! i" using True by (simp add: m1 memcpy_def buf_of_def n_def)
    finally show ?thesis using True by (simp add: dev1_def[symmetric] nth_append n_def)
  next
    case False
    then have i: "i = n + (i - n)" "i - n < length (i2c_data rs)" using that by (simp_all add: n_def)
    have "mem (deliver dev1 rs) (base + n + (i - n)) = i2c_data rs ! (i - n)"
      using ih1[OF i(2)] .
    then show ?thesis using False i(1) by (simp add: dev1_def[symmetric] nth_append n_def)
  qed
  have b: "mem (deliver dev (r # rs)) a = mem dev a"
    if "a < base \<or> base + length (i2c_data (r # rs)) \<le> a" for a
  proof -
    have "mem (deliver dev1 rs) a = mem dev1 a" using that ih2[of a] by (auto simp add: n_def)
    also have "\<dots> = mem dev a" using that by (auto simp add: m1 memcpy_def n_def)
    finally show ?thesis by (simp add: dev1_def[symmetric])
  qed
  show ?case using a b unfolding base_def by (auto simp add: add.assoc)
qed


lemma uart_receive_chars_eq:
  "\<not> uint n > FT260_RD_DATA_MAX \<Longrightarrow>
   ft260_uart_receive_chars dev data n =
     (let ret = int (min (unat n) (tty_flip_room dev (now dev)))
      in (ret, dev\<lparr>icount_rx := icount_rx dev + of_int ret,
            calls := calls dev @ (TtyInsertFlipString (bytes data (unat n)) ret #
                       (if ret \<noteq> 0 then [TtyFlipBufferPush] else []))\<rparr>))"
  by (simp add: ft260_uart_receive_chars_def Let_def log_call_def)

text \<open>
  Claim C3, as amended. The dispatcher applies four rules in this order. (1) A report
  whose id is in the I2C data range: its length byte many payload bytes are copied to
  the destination of the pending read at the current offset, nothing else in memory
  changes, the 16-bit offset advances by the length, the completion is signalled exactly
  when the new offset equals the requested length, and 1 is returned. (2) Otherwise a
  length above 60 is refused with \<open>-EBADR\<close> and nothing changes. (3) Otherwise a report
  whose id is in the UART data range goes to the UART receive path, which offers the
  payload to the tty. (4) Otherwise the report is dropped and 0 is returned.
  For a wait that starts at offset 0 and ends completed, the reports consumed are a
  non-empty prefix of those delivered, the last of them is an I2C data report, no
  completion was signalled before it, and the number of I2C data bytes delivered equals
  the requested length modulo 65536. When fewer than 65536 bytes were delivered it is
  exactly the requested length, and the destination holds the bytes in the order of
  delivery.
\<close>

theorem raw_event_dispatch:
  "(is_i2c_data_report data \<longrightarrow>
      (\<exists>dev'. ft260_raw_event dev data sz = (1, dev') \<and>
         (\<forall>i < unat (data 1). mem dev' (read_buf dev + unat (read_idx dev) + i) = data (2 + i)) \<and>
         (\<forall>a. a < read_buf dev + unat (read_idx dev) \<or>
               read_buf dev + unat (read_idx dev) + unat (data 1) \<le> a \<longrightarrow> mem dev' a = mem dev a) \<and>
         read_idx dev' = read_idx dev + ucast (data 1) \<and>
         wait dev' = (if read_idx dev' = read_len dev then wait dev + 1 else wait dev) \<and>
         calls dev' = calls dev)) \<and>
   (\<not> is_i2c_data_report data \<and> uint (data 1) > FT260_RD_DATA_MAX \<longrightarrow>
      ft260_raw_event dev data sz = (- EBADR, dev)) \<and>
   (\<not> is_i2c_data_report data \<and> \<not> uint (data 1) > FT260_RD_DATA_MAX \<and> is_uart_data_report data \<longrightarrow>
      ft260_raw_event dev data sz = ft260_uart_receive_chars dev (at_off data 2) (data 1) \<and>
      (\<exists>ret dev'. ft260_raw_event dev data sz = (ret, dev') \<and>
         ret = int (min (unat (data 1)) (tty_flip_room dev (now dev))) \<and>
         calls dev' = calls dev @ (TtyInsertFlipString (bytes (at_off data 2) (unat (data 1))) ret #
                        (if ret \<noteq> 0 then [TtyFlipBufferPush] else [])) \<and>
         wait dev' = wait dev \<and> mem dev' = mem dev \<and> read_idx dev' = read_idx dev)) \<and>
   (\<not> is_i2c_data_report data \<and> \<not> uint (data 1) > FT260_RD_DATA_MAX \<and> \<not> is_uart_data_report data \<longrightarrow>
      ft260_raw_event dev data sz = (0, dev)) \<and>
   (\<forall>rs dev'. read_idx dev = 0 \<and> wait dev = 0 \<and> wait_for_reports dev rs = (True, dev') \<longrightarrow>
      (\<exists>ps qs. rs = ps @ qs \<and> ps \<noteq> [] \<and> is_i2c_data_report (last ps) \<and>
         dev' = (deliver dev ps)\<lparr>wait := 0\<rparr> \<and>
         (\<forall>k < length ps. wait (deliver dev (take k ps)) = 0) \<and>
         (of_nat (length (i2c_data ps)) :: u16) = read_len dev \<and>
         (length (i2c_data ps) < 65536 \<longrightarrow>
            length (i2c_data ps) = unat (read_len dev) \<and>
            (\<forall>i < unat (read_len dev). mem dev' (read_buf dev + i) = i2c_data ps ! i))))"
proof (intro conjI impI allI)
  assume i2c: "is_i2c_data_report data"
  define dev' where "dev' = dev\<lparr>mem := memcpy (mem dev) (read_buf dev + unat (read_idx dev))
                      (at_off data 2) (unat (data 1)),
              read_idx := read_idx dev + ucast (data 1),
              wait := (if read_idx dev + ucast (data 1) = read_len dev then wait dev + 1
                       else wait dev)\<rparr>"
  have "ft260_raw_event dev data sz = (1, dev')"
    using raw_event_i2c[OF i2c] by (simp add: dev'_def)
  moreover have "\<forall>i < unat (data 1). mem dev' (read_buf dev + unat (read_idx dev) + i) = data (2 + i)"
    by (simp add: dev'_def memcpy_def at_off_def)
  moreover have "\<forall>a. a < read_buf dev + unat (read_idx dev) \<or>
               read_buf dev + unat (read_idx dev) + unat (data 1) \<le> a \<longrightarrow> mem dev' a = mem dev a"
    by (auto simp add: dev'_def memcpy_def)
  moreover have "read_idx dev' = read_idx dev + ucast (data 1)"
    "wait dev' = (if read_idx dev' = read_len dev then wait dev + 1 else wait dev)"
    "calls dev' = calls dev"
    by (simp_all add: dev'_def)
  ultimately show "\<exists>dev'. ft260_raw_event dev data sz = (1, dev') \<and>
         (\<forall>i < unat (data 1). mem dev' (read_buf dev + unat (read_idx dev) + i) = data (2 + i)) \<and>
         (\<forall>a. a < read_buf dev + unat (read_idx dev) \<or>
               read_buf dev + unat (read_idx dev) + unat (data 1) \<le> a \<longrightarrow> mem dev' a = mem dev a) \<and>
         read_idx dev' = read_idx dev + ucast (data 1) \<and>
         wait dev' = (if read_idx dev' = read_len dev then wait dev + 1 else wait dev) \<and>
         calls dev' = calls dev"
    by blast
next
  assume "\<not> is_i2c_data_report data \<and> uint (data 1) > FT260_RD_DATA_MAX"
  then show "ft260_raw_event dev data sz = (- EBADR, dev)"
    by (auto simp add: ft260_raw_event_def Let_def is_i2c_data_report_def)
next
  assume a: "\<not> is_i2c_data_report data \<and> \<not> uint (data 1) > FT260_RD_DATA_MAX \<and>
    is_uart_data_report data"
  then show u: "ft260_raw_event dev data sz = ft260_uart_receive_chars dev (at_off data 2) (data 1)"
    by (auto simp add: ft260_raw_event_def Let_def is_i2c_data_report_def is_uart_data_report_def)
  from a have "\<not> uint (data 1) > FT260_RD_DATA_MAX" by simp
  from uart_receive_chars_eq[OF this, of dev "at_off data 2"]
  show "\<exists>ret dev'. ft260_raw_event dev data sz = (ret, dev') \<and>
         ret = int (min (unat (data 1)) (tty_flip_room dev (now dev))) \<and>
         calls dev' = calls dev @ (TtyInsertFlipString (bytes (at_off data 2) (unat (data 1))) ret #
                        (if ret \<noteq> 0 then [TtyFlipBufferPush] else [])) \<and>
         wait dev' = wait dev \<and> mem dev' = mem dev \<and> read_idx dev' = read_idx dev"
    unfolding u by (simp add: Let_def)
next
  assume "\<not> is_i2c_data_report data \<and> \<not> uint (data 1) > FT260_RD_DATA_MAX \<and>
    \<not> is_uart_data_report data"
  then show "ft260_raw_event dev data sz = (0, dev)"
    by (auto simp add: ft260_raw_event_def Let_def is_i2c_data_report_def is_uart_data_report_def)
next
  fix rs dev'
  assume a: "read_idx dev = 0 \<and> wait dev = 0 \<and> wait_for_reports dev rs = (True, dev')"
  then have w0: "wait dev = 0" and run: "wait_for_reports dev rs = (True, dev')"
    and i0: "read_idx dev = 0" by simp_all
  from wait_for_reports_completed[OF w0 run] obtain ps qs where
    ps: "rs = ps @ qs" "ps \<noteq> []" "dev' = (deliver dev ps)\<lparr>wait := 0\<rparr>"
      "wait (deliver dev ps) = 1" "\<forall>k < length ps. wait (deliver dev (take k ps)) = 0"
    by blast
  from deliver_completes[OF ps(2,4,5)] have
    c: "is_i2c_data_report (last ps)" "read_idx (deliver dev ps) = read_len dev" by simp_all
  have tot: "(of_nat (length (i2c_data ps)) :: u16) = read_len dev"
    using c(2) deliver_read_state[of dev ps] i0 by simp
  have exact: "length (i2c_data ps) = unat (read_len dev) \<and>
            (\<forall>i < unat (read_len dev). mem dev' (read_buf dev + i) = i2c_data ps ! i)"
    if small: "length (i2c_data ps) < 65536"
  proof -
    have "unat (of_nat (length (i2c_data ps)) :: u16) = length (i2c_data ps)"
      using small by (simp add: unat_of_nat)
    then have len: "length (i2c_data ps) = unat (read_len dev)" using tot by simp
    have "unat (read_idx dev) + length (i2c_data ps) < 65536" using small i0 by simp
    from deliver_mem[OF this] have
      "\<forall>i < length (i2c_data ps). mem (deliver dev ps) (read_buf dev + i) = i2c_data ps ! i"
      using i0 by simp
    then show ?thesis using len by (simp add: ps(3))
  qed
  show "\<exists>ps qs. rs = ps @ qs \<and> ps \<noteq> [] \<and> is_i2c_data_report (last ps) \<and>
         dev' = (deliver dev ps)\<lparr>wait := 0\<rparr> \<and>
         (\<forall>k < length ps. wait (deliver dev (take k ps)) = 0) \<and>
         (of_nat (length (i2c_data ps)) :: u16) = read_len dev \<and>
         (length (i2c_data ps) < 65536 \<longrightarrow>
            length (i2c_data ps) = unat (read_len dev) \<and>
            (\<forall>i < unat (read_len dev). mem dev' (read_buf dev + i) = i2c_data ps ! i))"
    using ps(1,2,3,5) c(1) tot exact by blast
qed


lemma wait_for_reports_not_completed:
  assumes "wait dev = 0" and "\<forall>k \<le> length rs. wait (deliver dev (take k rs)) = 0"
  shows "\<not> fst (wait_for_reports dev rs)"
proof
  assume "fst (wait_for_reports dev rs)"
  then have "wait_for_reports dev rs = (True, snd (wait_for_reports dev rs))"
    by (simp add: prod_eq_iff)
  from wait_for_reports_completed[OF assms(1) this] obtain ps qs where
    ps: "rs = ps @ qs" "wait (deliver dev ps) = 1" by blast
  have "take (length ps) rs = ps" "length ps \<le> length rs" using ps(1) by simp_all
  with assms(2)[rule_format, of "length ps"] ps(2) show False by simp
qed

lemma wait_for_reports_at_end:
  assumes "wait dev = 0" and "wait (deliver dev rs) > 0"
  shows "fst (wait_for_reports dev rs)"
proof (rule ccontr)
  assume "\<not> fst (wait_for_reports dev rs)"
  then have "wait_for_reports dev rs = (False, snd (wait_for_reports dev rs))"
    by (simp add: prod_eq_iff)
  from wait_for_reports_timed_out[OF assms(1) this] have "wait (deliver dev (take (length rs) rs)) = 0"
    by blast
  with assms(2) show False by simp
qed

lemma long_report_facts:
  "is_i2c_data_report long_report" "length (i2c_payload long_report) = 255"
  by (simp_all add: long_report_def is_i2c_data_report_def i2c_payload_def buf_of_def)

lemma two_byte_report_facts:
  "is_i2c_data_report two_byte_report" "i2c_payload two_byte_report = [0xAA, 0xBB]"
  by (simp_all add: two_byte_report_def is_i2c_data_report_def i2c_payload_def buf_of_def
        bytes_def at_off_def upt_rec)

lemma i2c_data_long: "length (i2c_data (replicate k long_report)) = 255 * k"
  by (induction k) (simp_all add: long_report_facts)

lemma deliver_long_no_completion:
  assumes "wait d = 0"
    and "\<forall>j. 1 \<le> j \<and> j \<le> k \<longrightarrow> read_idx d + of_nat (255 * j) \<noteq> read_len d"
  shows "wait (deliver d (replicate k long_report)) = 0"
  using assms
proof (induction k arbitrary: d)
  case 0
  then show ?case by simp
next
  case (Suc k)
  define d1 where "d1 = snd (ft260_raw_event d long_report FT260_REPORT_MAX_LENGTH)"
  have "read_idx d + of_nat (255 * 1) \<noteq> read_len d" using Suc.prems(2) by force
  then have w1: "wait d1 = 0"
    using Suc.prems(1) by (simp add: d1_def raw_event_read_state long_report_facts)
  have i1: "read_idx d1 = read_idx d + 255" "read_len d1 = read_len d"
    by (simp_all add: d1_def raw_event_read_state long_report_facts)
  have "\<forall>j. 1 \<le> j \<and> j \<le> k \<longrightarrow> read_idx d1 + of_nat (255 * j) \<noteq> read_len d1"
  proof (intro allI impI)
    fix j assume j: "1 \<le> j \<and> j \<le> k"
    then have "1 \<le> Suc j \<and> Suc j \<le> Suc k" by simp
    from Suc.prems(2)[rule_format, OF this]
    have "read_idx d + of_nat (255 * Suc j) \<noteq> read_len d" .
    moreover have "read_idx d + of_nat (255 * Suc j) = read_idx d + 255 + of_nat (255 * j)"
      by simp
    ultimately show "read_idx d1 + of_nat (255 * j) \<noteq> read_len d1"
      by (simp add: i1 add.assoc)
  qed
  from Suc.IH[OF w1 this] show ?case by (simp add: d1_def)
qed


text \<open>
  The offset is a \<open>u16\<close> and wraps around. A read of one byte is answered with a report
  of two bytes and then 257 reports of 255 bytes. After the first 257 reports (65282
  bytes) the wait has not completed; the last report completes it, when 65537 bytes have
  been delivered and not one.
\<close>

theorem wait_completes_after_overrun_counterexample:
  "\<not> fst (wait_for_reports (idle_bridge\<lparr>read_len := 1\<rparr>) (butlast overrun_reports)) \<and>
   fst (wait_for_reports (idle_bridge\<lparr>read_len := 1\<rparr>) overrun_reports) \<and>
   length (i2c_data overrun_reports) = 65537 \<and>
   unat (read_len (idle_bridge\<lparr>read_len := 1\<rparr>)) = 1"
proof -
  define d0 where "d0 = idle_bridge\<lparr>read_len := 1\<rparr>"
  define d1 where "d1 = snd (ft260_raw_event d0 two_byte_report FT260_REPORT_MAX_LENGTH)"
  have d0: "wait d0 = 0" "read_idx d0 = 0" "read_len d0 = 1"
    by (simp_all add: d0_def idle_bridge_def)
  have d1: "wait d1 = 0" "read_idx d1 = 2" "read_len d1 = 1"
    by (simp_all add: d1_def raw_event_read_state two_byte_report_facts d0)
  have far: "read_idx d1 + of_nat (255 * j) \<noteq> read_len d1" if "1 \<le> j \<and> j \<le> 256" for j
  proof -
    have "unat ((2 :: u16) + of_nat (255 * j)) = unat (2 :: u16) + 255 * j"
      using that by (intro unat_u16_add_of_nat) simp
    then have "unat ((2 :: u16) + of_nat (255 * j)) \<noteq> unat (1 :: u16)" by simp
    then show ?thesis unfolding d1 by metis
  qed
  have quiet: "wait (deliver d1 (replicate k long_report)) = 0" if "k \<le> 256" for k
    using that far by (intro deliver_long_no_completion d1(1)) auto
  have r257: "replicate 257 long_report = replicate 256 long_report @ [long_report]"
  proof -
    have "replicate (256 + 1) long_report = replicate 256 long_report @ replicate 1 long_report"
      by (rule replicate_add)
    then show ?thesis by simp
  qed
  have bl: "butlast overrun_reports = two_byte_report # replicate 256 long_report"
    by (simp add: overrun_reports_def r257)
  have all: "overrun_reports = butlast overrun_reports @ [long_report]"
    unfolding bl by (simp add: overrun_reports_def r257)
  have before: "\<forall>k \<le> length (butlast overrun_reports).
      wait (deliver d0 (take k (butlast overrun_reports))) = 0"
  proof (intro allI impI)
    fix k assume k: "k \<le> length (butlast overrun_reports)"
    show "wait (deliver d0 (take k (butlast overrun_reports))) = 0"
    proof (cases k)
      case 0
      then show ?thesis using d0 by simp
    next
      case (Suc j)
      then have "j \<le> 256" using k by (simp add: bl)
      then have "wait (deliver d1 (replicate (min j 256) long_report)) = 0"
        by (intro quiet) simp
      then show ?thesis using Suc by (simp add: bl d1_def)
    qed
  qed
  have c1: "\<not> fst (wait_for_reports d0 (butlast overrun_reports))"
    using wait_for_reports_not_completed[OF d0(1) before] .
  define dm where "dm = deliver d0 (butlast overrun_reports)"
  have wm: "wait dm = 0"
    using before[rule_format, of "length (butlast overrun_reports)"] by (simp add: dm_def)
  have im: "read_idx dm = 65282" "read_len dm = 1"
    using deliver_read_state[of d0 "butlast overrun_reports"]
    by (simp_all add: dm_def bl d0 two_byte_report_facts i2c_data_long)
  have "deliver d0 overrun_reports = snd (ft260_raw_event dm long_report FT260_REPORT_MAX_LENGTH)"
    by (subst all) (simp add: deliver_append dm_def)
  then have "wait (deliver d0 overrun_reports) = 1"
    by (simp add: raw_event_read_state long_report_facts wm im)
  then have c2: "fst (wait_for_reports d0 overrun_reports)"
    using wait_for_reports_at_end[OF d0(1)] by simp
  have c3: "length (i2c_data overrun_reports) = 65537"
    by (simp add: overrun_reports_def two_byte_report_facts i2c_data_long)
  show ?thesis using c1 c2 c3 d0(3) unfolding d0_def by simp
qed


theorem raw_event_dispatch_witness:
  "(\<exists>dev'. ft260_raw_event (idle_bridge\<lparr>read_buf := 16, read_len := 2\<rparr>) two_byte_report 64 = (1, dev') \<and>
      mem dev' 16 = 0xAA \<and> mem dev' 17 = 0xBB \<and> read_idx dev' = 2 \<and> wait dev' = 1) \<and>
   ft260_raw_event (idle_bridge\<lparr>read_buf := 16, read_len := 2\<rparr>) (buf_of [0xF0, 61]) 64 =
     (- EBADR, idle_bridge\<lparr>read_buf := 16, read_len := 2\<rparr>) \<and>
   (\<exists>dev'. ft260_raw_event (idle_bridge\<lparr>read_buf := 16, read_len := 2\<rparr>) (buf_of [0xF0, 1, 0x41]) 64 =
      (1, dev') \<and> calls dev' = [TtyInsertFlipString [0x41] 1, TtyFlipBufferPush]) \<and>
   ft260_raw_event (idle_bridge\<lparr>read_buf := 16, read_len := 2\<rparr>) (buf_of [0x10, 0]) 64 =
     (0, idle_bridge\<lparr>read_buf := 16, read_len := 2\<rparr>) \<and>
   fst (wait_for_reports (idle_bridge\<lparr>read_buf := 16, read_len := 2\<rparr>) [two_byte_report]) \<and>
   mem (snd (wait_for_reports (idle_bridge\<lparr>read_buf := 16, read_len := 2\<rparr>) [two_byte_report])) 16 = 0xAA \<and>
   mem (snd (wait_for_reports (idle_bridge\<lparr>read_buf := 16, read_len := 2\<rparr>) [two_byte_report])) 17 = 0xBB"
proof -
  define d where "d = idle_bridge\<lparr>read_buf := 16, read_len := 2\<rparr>"
  have d: "read_buf d = 16" "read_len d = 2" "read_idx d = 0" "wait d = 0" "calls d = []"
    "tty_flip_room d (now d) = 512"
    by (simp_all add: d_def idle_bridge_def)
  note disp = raw_event_dispatch[where dev = d and sz = 64]
  have p1: "\<exists>dev'. ft260_raw_event d two_byte_report 64 = (1, dev') \<and>
      mem dev' 16 = 0xAA \<and> mem dev' 17 = 0xBB \<and> read_idx dev' = 2 \<and> wait dev' = 1"
  proof -
    from disp[of two_byte_report, THEN conjunct1, rule_format, OF two_byte_report_facts(1)]
    obtain dev' where r: "ft260_raw_event d two_byte_report 64 = (1, dev')"
      and m: "\<forall>i < unat (two_byte_report 1).
          mem dev' (read_buf d + unat (read_idx d) + i) = two_byte_report (2 + i)"
      and i: "read_idx dev' = read_idx d + ucast (two_byte_report 1)"
      and w: "wait dev' = (if read_idx dev' = read_len d then wait d + 1 else wait d)"
      by blast
    have n: "two_byte_report 1 = 2" "two_byte_report (Suc 0) = 2" "two_byte_report 2 = 0xAA"
      "two_byte_report 3 = 0xBB"
      by (simp_all add: two_byte_report_def buf_of_def)
    from m[rule_format, of 0] m[rule_format, of 1]
    have "mem dev' 16 = 0xAA" "mem dev' 17 = 0xBB" by (simp_all add: n d)
    moreover have "read_idx dev' = 2" using i by (simp add: n d)
    moreover from this have "wait dev' = 1" using w by (simp add: d)
    ultimately show ?thesis using r by blast
  qed
  have p2: "ft260_raw_event d (buf_of [0xF0, 61]) 64 = (- EBADR, d)"
    using disp[of "buf_of [0xF0, 61]", THEN conjunct2, THEN conjunct1]
    by (simp add: is_i2c_data_report_def buf_of_def)
  have p3: "\<exists>dev'. ft260_raw_event d (buf_of [0xF0, 1, 0x41]) 64 = (1, dev') \<and>
      calls dev' = [TtyInsertFlipString [0x41] 1, TtyFlipBufferPush]"
  proof -
    define r3 where "r3 = buf_of [0xF0, 1, 0x41]"
    have r3: "\<not> is_i2c_data_report r3 \<and> \<not> uint (r3 1) > FT260_RD_DATA_MAX \<and>
        is_uart_data_report r3"
      by (simp add: r3_def is_i2c_data_report_def is_uart_data_report_def buf_of_def)
    have b3: "unat (r3 (Suc 0)) = 1" "bytes (at_off r3 2) (Suc 0) = [0x41]"
      by (simp_all add: r3_def buf_of_def bytes_def at_off_def)
    from disp[of r3, THEN conjunct2, THEN conjunct2, THEN conjunct1, rule_format, OF r3]
    obtain ret dev' where "ft260_raw_event d r3 64 = (ret, dev')"
      "ret = int (min (unat (r3 1)) (tty_flip_room d (now d)))"
      "calls dev' = calls d @ (TtyInsertFlipString (bytes (at_off r3 2) (unat (r3 1))) ret #
                        (if ret \<noteq> 0 then [TtyFlipBufferPush] else []))"
      by blast
    then have "ft260_raw_event d r3 64 = (1, dev') \<and>
        calls dev' = [TtyInsertFlipString [0x41] 1, TtyFlipBufferPush]"
      by (simp add: b3 d)
    then show ?thesis unfolding r3_def by blast
  qed
  have p4: "ft260_raw_event d (buf_of [0x10, 0]) 64 = (0, d)"
    using disp[of "buf_of [0x10, 0]", THEN conjunct2, THEN conjunct2, THEN conjunct2,
        THEN conjunct1]
    by (simp add: is_i2c_data_report_def is_uart_data_report_def buf_of_def)
  define dev' where "dev' = snd (wait_for_reports d [two_byte_report])"
  have "wait (snd (ft260_raw_event d two_byte_report 64)) = 1"
    by (simp add: raw_event_read_state two_byte_report_facts d)
  then have f: "fst (wait_for_reports d [two_byte_report])" by simp
  then have run: "read_idx d = 0 \<and> wait d = 0 \<and> wait_for_reports d [two_byte_report] = (True, dev')"
    by (simp add: d dev'_def prod_eq_iff)
  from disp[of two_byte_report, THEN conjunct2, THEN conjunct2, THEN conjunct2, THEN conjunct2,
      rule_format, OF run]
  obtain ps qs where ps: "[two_byte_report] = ps @ qs" "ps \<noteq> []"
    and ex: "length (i2c_data ps) < 65536 \<longrightarrow> length (i2c_data ps) = unat (read_len d) \<and>
            (\<forall>i < unat (read_len d). mem dev' (read_buf d + i) = i2c_data ps ! i)"
    by blast
  from ps have "ps = [two_byte_report]" by (cases ps) auto
  then have dat: "i2c_data ps = [0xAA, 0xBB]" by (simp add: two_byte_report_facts)
  with ex have m: "\<forall>i < 2. mem dev' (16 + i) = [0xAA, 0xBB] ! i" by (simp add: d)
  from m[rule_format, of 0] m[rule_format, of 1]
  have p5: "mem dev' 16 = 0xAA" "mem dev' 17 = 0xBB" by simp_all
  show ?thesis using p1 p2 p3 p4 f p5 unfolding d_def dev'_def by blast
qed


section \<open>The I2C read\<close>


lemma bus_resets_simps [simp]:
  "bus_resets [] = 0"
  "bus_resets (xs @ ys) = bus_resets xs + bus_resets ys"
  "bus_resets (c # cs) = (if is_bus_reset c then 1 else 0) + bus_resets cs"
  by (simp_all add: bus_resets_def)

lemma status_requests_simps [simp]:
  "status_requests [] = 0"
  "status_requests (xs @ ys) = status_requests xs + status_requests ys"
  "status_requests (c # cs) = (if is_status_request c then 1 else 0) + status_requests cs"
  by (simp_all add: status_requests_def)

lemma raw_event_counts:
  "bus_resets (calls (snd (ft260_raw_event dev r sz))) = bus_resets (calls dev) \<and>
   status_requests (calls (snd (ft260_raw_event dev r sz))) = status_requests (calls dev)"
proof (cases "is_i2c_data_report r")
  case True
  then show ?thesis by (simp add: raw_event_i2c)
next
  case i: False
  show ?thesis
  proof (cases "uint (r 1) > FT260_RD_DATA_MAX")
    case True
    then have "ft260_raw_event dev r sz = (- EBADR, dev)"
      using i by (auto simp add: ft260_raw_event_def Let_def is_i2c_data_report_def)
    then show ?thesis by simp
  next
    case False
    show ?thesis
    proof (cases "is_uart_data_report r")
      case True
      then have "ft260_raw_event dev r sz = ft260_uart_receive_chars dev (at_off r 2) (r 1)"
        using i False
        by (auto simp add: ft260_raw_event_def Let_def is_i2c_data_report_def
              is_uart_data_report_def)
      then show ?thesis using uart_receive_chars_eq[OF False, of dev "at_off r 2"]
        by (simp add: Let_def)
    next
      case u: False
      then have "ft260_raw_event dev r sz = (0, dev)"
        using i False
        by (auto simp add: ft260_raw_event_def Let_def is_i2c_data_report_def
              is_uart_data_report_def)
      then show ?thesis by simp
    qed
  qed
qed

lemma deliver_counts:
  "bus_resets (calls (deliver dev rs)) = bus_resets (calls dev) \<and>
   status_requests (calls (deliver dev rs)) = status_requests (calls dev)"
  by (induction rs arbitrary: dev) (simp_all add: raw_event_counts)

lemma wait_for_reports_deliver:
  "wait dev = 0 \<Longrightarrow> \<exists>ps w. snd (wait_for_reports dev rs) = (deliver dev ps)\<lparr>wait := w\<rparr>"
proof (cases "fst (wait_for_reports dev rs)")
  case True
  assume w: "wait dev = 0"
  from True have "wait_for_reports dev rs = (True, snd (wait_for_reports dev rs))"
    by (simp add: prod_eq_iff)
  from wait_for_reports_completed[OF w this] show ?thesis by blast
next
  case False
  assume w: "wait dev = 0"
  from False have "wait_for_reports dev rs = (False, snd (wait_for_reports dev rs))"
    by (simp add: prod_eq_iff)
  from wait_for_reports_timed_out[OF w this]
  have "snd (wait_for_reports dev rs) = (deliver dev rs)\<lparr>wait := wait (deliver dev rs)\<rparr>"
    by simp
  then show ?thesis by blast
qed

lemma wait_for_completion_timeout_counts:
  assumes "wait dev = 0"
  shows "bus_resets (calls (snd (wait_for_completion_timeout dev ms))) = bus_resets (calls dev) \<and>
    status_requests (calls (snd (wait_for_completion_timeout dev ms))) = status_requests (calls dev)"
proof -
  from wait_for_reports_deliver[OF assms, of "hw_input dev (now dev)"] obtain ps w where
    "snd (wait_for_reports dev (hw_input dev (now dev))) = (deliver dev ps)\<lparr>wait := w\<rparr>"
    by blast
  then show ?thesis
    by (simp add: wait_for_completion_timeout_def split_def deliver_counts)
qed


lemma deliver_wait_snoc:
  "wait (deliver d (rs @ [r])) =
     wait (deliver d rs) +
     (if is_i2c_data_report r \<and> read_idx d + of_nat (length (i2c_data (rs @ [r]))) = read_len d
      then 1 else 0)"
  by (simp add: deliver_append raw_event_read_state deliver_read_state add.assoc)

lemma deliver_wait_zero_iff:
  assumes "wait d = 0"
  shows "wait (deliver d rs) = 0 \<longleftrightarrow>
    (\<forall>k. 0 < k \<and> k \<le> length rs \<longrightarrow>
       \<not> (is_i2c_data_report (rs ! (k - 1)) \<and>
          read_idx d + of_nat (length (i2c_data (take k rs))) = read_len d))"
proof (induction rs rule: rev_induct)
  case Nil
  then show ?case using assms by simp
next
  case (snoc x xs)
  define cond where "cond ys k \<longleftrightarrow> is_i2c_data_report (ys ! (k - 1)) \<and>
          read_idx d + of_nat (length (i2c_data (take k ys))) = read_len d" for ys k
  have old: "cond (xs @ [x]) k = cond xs k" if "0 < k" "k \<le> length xs" for k
  proof -
    have "k - 1 < length xs" using that by arith
    then have "(xs @ [x]) ! (k - 1) = xs ! (k - 1)" by (simp only: nth_append if_True)
    moreover have "take k (xs @ [x]) = take k xs" using that by simp
    ultimately show ?thesis unfolding cond_def by (simp only:)
  qed
  have new: "cond (xs @ [x]) (Suc (length xs)) \<longleftrightarrow>
      is_i2c_data_report x \<and> read_idx d + of_nat (length (i2c_data (xs @ [x]))) = read_len d"
    by (simp add: cond_def)
  have "wait (deliver d (xs @ [x])) = 0 \<longleftrightarrow>
      wait (deliver d xs) = 0 \<and> \<not> cond (xs @ [x]) (Suc (length xs))"
    unfolding new deliver_wait_snoc by simp
  also have "\<dots> \<longleftrightarrow> (\<forall>k. 0 < k \<and> k \<le> length xs \<longrightarrow> \<not> cond xs k) \<and>
      \<not> cond (xs @ [x]) (Suc (length xs))"
    using snoc.IH unfolding cond_def by simp
  also have "\<dots> \<longleftrightarrow> (\<forall>k. 0 < k \<and> k \<le> length (xs @ [x]) \<longrightarrow> \<not> cond (xs @ [x]) k)"
  proof
    assume a: "(\<forall>k. 0 < k \<and> k \<le> length xs \<longrightarrow> \<not> cond xs k) \<and>
      \<not> cond (xs @ [x]) (Suc (length xs))"
    show "\<forall>k. 0 < k \<and> k \<le> length (xs @ [x]) \<longrightarrow> \<not> cond (xs @ [x]) k"
    proof (intro allI impI)
      fix k assume k: "0 < k \<and> k \<le> length (xs @ [x])"
      show "\<not> cond (xs @ [x]) k"
      proof (cases "k \<le> length xs")
        case True
        then show ?thesis using a k old by simp
      next
        case False
        then have "k = Suc (length xs)" using k by simp
        then show ?thesis using a by simp
      qed
    qed
  next
    assume b: "\<forall>k. 0 < k \<and> k \<le> length (xs @ [x]) \<longrightarrow> \<not> cond (xs @ [x]) k"
    have "\<not> cond xs k" if "0 < k \<and> k \<le> length xs" for k
      using b[rule_format, of k] that old[of k] by simp
    moreover have "\<not> cond (xs @ [x]) (Suc (length xs))"
      using b[rule_format, of "Suc (length xs)"] by simp
    ultimately show "(\<forall>k. 0 < k \<and> k \<le> length xs \<longrightarrow> \<not> cond xs k) \<and>
      \<not> cond (xs @ [x]) (Suc (length xs))" by blast
  qed
  finally show ?case unfolding cond_def .
qed

lemma wait_for_reports_fst_iff:
  assumes "wait d = 0"
  shows "fst (wait_for_reports d rs) \<longleftrightarrow>
    (\<exists>k. 0 < k \<and> k \<le> length rs \<and> is_i2c_data_report (rs ! (k - 1)) \<and>
       read_idx d + of_nat (length (i2c_data (take k rs))) = read_len d)"
proof
  assume "fst (wait_for_reports d rs)"
  then have "wait_for_reports d rs = (True, snd (wait_for_reports d rs))"
    by (simp add: prod_eq_iff)
  from wait_for_reports_completed[OF assms this] obtain ps qs where
    ps: "rs = ps @ qs" "wait (deliver d ps) = 1" by blast
  then have "wait (deliver d ps) \<noteq> 0" by simp
  with deliver_wait_zero_iff[OF assms, of ps] obtain k where
    k: "0 < k" "k \<le> length ps" "is_i2c_data_report (ps ! (k - 1))"
      "read_idx d + of_nat (length (i2c_data (take k ps))) = read_len d"
    by blast
  have "k - 1 < length ps" using k(1,2) by arith
  then have "rs ! (k - 1) = ps ! (k - 1)" unfolding ps(1) by (simp only: nth_append if_True)
  moreover have "k \<le> length rs" "take k rs = take k ps" using ps(1) k(2) by simp_all
  ultimately have "k \<le> length rs" "rs ! (k - 1) = ps ! (k - 1)" "take k rs = take k ps"
    by simp_all
  with k show "\<exists>k. 0 < k \<and> k \<le> length rs \<and> is_i2c_data_report (rs ! (k - 1)) \<and>
       read_idx d + of_nat (length (i2c_data (take k rs))) = read_len d"
    by metis
next
  assume "\<exists>k. 0 < k \<and> k \<le> length rs \<and> is_i2c_data_report (rs ! (k - 1)) \<and>
       read_idx d + of_nat (length (i2c_data (take k rs))) = read_len d"
  then obtain k where k: "0 < k" "k \<le> length rs" "is_i2c_data_report (rs ! (k - 1))"
      "read_idx d + of_nat (length (i2c_data (take k rs))) = read_len d"
    by blast
  have "0 < k \<and> k \<le> length (take k rs) \<and> is_i2c_data_report (take k rs ! (k - 1)) \<and>
      read_idx d + of_nat (length (i2c_data (take k (take k rs)))) = read_len d"
    using k by simp
  with deliver_wait_zero_iff[OF assms, of "take k rs"]
  have nz: "wait (deliver d (take k rs)) \<noteq> 0" by blast
  show "fst (wait_for_reports d rs)"
  proof (rule ccontr)
    assume "\<not> fst (wait_for_reports d rs)"
    then have "wait_for_reports d rs = (False, snd (wait_for_reports d rs))"
      by (simp add: prod_eq_iff)
    from wait_for_reports_timed_out[OF assms this] k(2) have "wait (deliver d (take k rs)) = 0"
      by blast
    with nz show False by simp
  qed
qed


lemma bytes_buf_of: "n = length xs \<Longrightarrow> bytes (buf_of xs) n = xs"
  by (auto simp add: bytes_def buf_of_def intro: nth_equalityI)

lemma xfer_status_counts:
  "bus_resets (calls (snd (ft260_xfer_status dev))) = bus_resets (calls dev) \<and>
   status_requests (calls (snd (ft260_xfer_status dev))) = status_requests (calls dev) + 1"
  using xfer_status_shape[of dev] by auto

text \<open>
  Claim C4. Take a read of at most 60 bytes whose request report has been sent. The wait
  of 5000 ms completes exactly when one of the input reports delivered meanwhile is an
  I2C data report that brings the count of delivered data bytes to the requested length.
  If the wait times out, the read returns \<open>-ETIMEDOUT\<close>; its last call is the bus reset,
  it is the only bus reset of the read, and the status is never requested, so no result
  of a completion is returned. If the wait completes and the status check does not
  return 0, the read resets the bus, once, and returns \<open>-EIO\<close>. If the status check
  returns 0, the read returns 0 and the bus is not reset.
\<close>

theorem i2c_read_timeout_and_status:
  assumes "uint len \<le> FT260_RD_DATA_MAX \<and> kmalloc_ok dev (now dev) \<and>
    0 \<le> hw_output_report dev (now dev)"
  shows "\<exists>sent completed waited.
     sent = log_call (OutputReport [0xC2, addr, flag, ucast len, ucast (drop_bit 8 len)]
                        (hw_output_report dev (now dev)))
              (dev\<lparr>read_idx := 0, read_buf := data, read_len := len, wait := 0\<rparr>) \<and>
     wait_for_completion_timeout sent 5000 = (completed, waited) \<and>
     (completed \<longleftrightarrow>
        (\<exists>k. 0 < k \<and> k \<le> length (hw_input dev (Suc (now dev))) \<and>
           is_i2c_data_report (hw_input dev (Suc (now dev)) ! (k - 1)) \<and>
           of_nat (length (i2c_data (take k (hw_input dev (Suc (now dev)))))) = len)) \<and>
     (\<not> completed \<longrightarrow>
        (\<exists>x dev'. ft260_i2c_read dev addr data len flag = (- ETIMEDOUT, dev') \<and>
           calls dev' = calls waited @ [FeatureSet [0xA1, 0x20] x] \<and>
           last (calls waited) = WaitCompletion 5000 False \<and>
           bus_resets (calls dev') = bus_resets (calls dev) + 1 \<and>
           status_requests (calls dev') = status_requests (calls dev))) \<and>
     (completed \<and> fst (ft260_xfer_status waited) \<noteq> 0 \<longrightarrow>
        (\<exists>x dev'. ft260_i2c_read dev addr data len flag = (- EIO, dev') \<and>
           calls dev' = calls (snd (ft260_xfer_status waited)) @ [FeatureSet [0xA1, 0x20] x] \<and>
           bus_resets (calls dev') = bus_resets (calls dev) + 1)) \<and>
     (completed \<and> fst (ft260_xfer_status waited) = 0 \<longrightarrow>
        ft260_i2c_read dev addr data len flag = (0, snd (ft260_xfer_status waited)) \<and>
        bus_resets (calls (snd (ft260_xfer_status waited))) = bus_resets (calls dev))"
proof -
  define sent where "sent = log_call (OutputReport [0xC2, addr, flag, ucast len, ucast (drop_bit 8 len)]
                        (hw_output_report dev (now dev)))
              (dev\<lparr>read_idx := 0, read_buf := data, read_len := len, wait := 0\<rparr>)"
  define completed where "completed = fst (wait_for_completion_timeout sent 5000)"
  define waited where "waited = snd (wait_for_completion_timeout sent 5000)"
  have w: "wait_for_completion_timeout sent 5000 = (completed, waited)"
    by (simp add: completed_def waited_def)
  have s: "wait sent = 0" "read_idx sent = 0" "read_len sent = len" "now sent = Suc (now dev)"
    "hw_input sent = hw_input dev" "bus_resets (calls sent) = bus_resets (calls dev)"
    "status_requests (calls sent) = status_requests (calls dev)"
    by (simp_all add: sent_def now_def)
  have b5: "bytes (buf_of [0xC2, addr, flag, ucast len, ucast (drop_bit 8 len)]) 5 =
      [0xC2, addr, flag, ucast len, ucast (drop_bit 8 len)]"
    by (rule bytes_buf_of) simp
  have unfold: "ft260_i2c_read dev addr data len flag =
     (if \<not> completed then (- ETIMEDOUT, snd (ft260_i2c_reset waited))
      else if fst (ft260_xfer_status waited) = 0 then (0, snd (ft260_xfer_status waited))
      else (- EIO, snd (ft260_i2c_reset (snd (ft260_xfer_status waited)))))"
    using assms
    by (simp add: ft260_i2c_read_def Let_def output_report_eq reinit_completion_def b5
          sent_def[symmetric] w split_def)
  have c: "completed = fst (wait_for_reports sent (hw_input dev (Suc (now dev))))"
    by (simp add: completed_def wait_for_completion_timeout_def split_def s)
  have ciff: "completed \<longleftrightarrow>
        (\<exists>k. 0 < k \<and> k \<le> length (hw_input dev (Suc (now dev))) \<and>
           is_i2c_data_report (hw_input dev (Suc (now dev)) ! (k - 1)) \<and>
           of_nat (length (i2c_data (take k (hw_input dev (Suc (now dev)))))) = len)"
    unfolding c wait_for_reports_fst_iff[OF s(1)] by (simp add: s)
  have wc: "bus_resets (calls waited) = bus_resets (calls dev)"
    "status_requests (calls waited) = status_requests (calls dev)"
    using wait_for_completion_timeout_counts[OF s(1), of 5000] by (simp_all add: waited_def s)
  have lastw: "last (calls waited) = WaitCompletion 5000 completed"
    by (simp add: waited_def completed_def wait_for_completion_timeout_def split_def)
  have t: "\<exists>x dev'. ft260_i2c_read dev addr data len flag = (- ETIMEDOUT, dev') \<and>
           calls dev' = calls waited @ [FeatureSet [0xA1, 0x20] x] \<and>
           last (calls waited) = WaitCompletion 5000 False \<and>
           bus_resets (calls dev') = bus_resets (calls dev) + 1 \<and>
           status_requests (calls dev') = status_requests (calls dev)"
    if "\<not> completed"
  proof -
    define x where "x = fst (ft260_i2c_reset waited)"
    have "calls (snd (ft260_i2c_reset waited)) = calls waited @ [FeatureSet [0xA1, 0x20] x]"
      by (simp add: reset_eq Let_def x_def)
    then show ?thesis using that unfold lastw wc by auto
  qed
  have e: "\<exists>x dev'. ft260_i2c_read dev addr data len flag = (- EIO, dev') \<and>
           calls dev' = calls (snd (ft260_xfer_status waited)) @ [FeatureSet [0xA1, 0x20] x] \<and>
           bus_resets (calls dev') = bus_resets (calls dev) + 1"
    if "completed \<and> fst (ft260_xfer_status waited) \<noteq> 0"
  proof -
    define st where "st = snd (ft260_xfer_status waited)"
    define x where "x = fst (ft260_i2c_reset st)"
    have "calls (snd (ft260_i2c_reset st)) = calls st @ [FeatureSet [0xA1, 0x20] x]"
      by (simp add: reset_eq Let_def x_def)
    moreover have "bus_resets (calls st) = bus_resets (calls dev)"
      using xfer_status_counts[of waited] wc by (simp add: st_def)
    ultimately show ?thesis using that unfold unfolding st_def by auto
  qed
  have ok: "ft260_i2c_read dev addr data len flag = (0, snd (ft260_xfer_status waited)) \<and>
        bus_resets (calls (snd (ft260_xfer_status waited))) = bus_resets (calls dev)"
    if "completed \<and> fst (ft260_xfer_status waited) = 0"
    using that unfold xfer_status_counts[of waited] wc by simp
  show ?thesis
    using sent_def w ciff t e ok by blast
qed


lemma same_world_refl [simp]: "same_world d d"
  by (simp add: same_world_def)

lemma same_world_trans: "same_world a b \<Longrightarrow> same_world b c \<Longrightarrow> same_world a c"
  by (simp add: same_world_def)

lemma same_world_updates [simp]:
  "same_world d (log_call c d')= same_world d d'"
  "same_world d (d'\<lparr>clock := ck\<rparr>) = same_world d d'"
  "same_world d (d'\<lparr>calls := cs\<rparr>) = same_world d d'"
  "same_world d (d'\<lparr>wait := w\<rparr>) = same_world d d'"
  "same_world d (d'\<lparr>mem := m\<rparr>) = same_world d d'"
  "same_world d (d'\<lparr>read_idx := i\<rparr>) = same_world d d'"
  "same_world d (d'\<lparr>read_len := l\<rparr>) = same_world d d'"
  "same_world d (d'\<lparr>read_buf := b\<rparr>) = same_world d d'"
  "same_world d (d'\<lparr>write_buf := wb\<rparr>) = same_world d d'"
  "same_world d (d'\<lparr>icount_rx := x\<rparr>) = same_world d d'"
  by (simp_all add: same_world_def log_call_def)

lemma raw_event_world: "same_world dev (snd (ft260_raw_event dev r sz))"
proof (cases "is_i2c_data_report r")
  case True
  then show ?thesis by (simp add: raw_event_i2c)
next
  case False
  from raw_event_other[OF this, of dev sz] show ?thesis by auto
qed

lemma deliver_world: "same_world dev (deliver dev rs)"
proof (induction rs arbitrary: dev)
  case Nil
  then show ?case by simp
next
  case (Cons r rs)
  from same_world_trans[OF raw_event_world Cons.IH] show ?case by simp
qed

lemma wait_for_completion_timeout_world:
  assumes "wait dev = 0"
  shows "same_world dev (snd (wait_for_completion_timeout dev ms))"
proof -
  from wait_for_reports_deliver[OF assms, of "hw_input dev (now dev)"] obtain ps w where
    "snd (wait_for_reports dev (hw_input dev (now dev))) = (deliver dev ps)\<lparr>wait := w\<rparr>"
    by blast
  then show ?thesis
    by (simp add: wait_for_completion_timeout_def split_def deliver_world)
qed

lemma xfer_status_world: "same_world dev (snd (ft260_xfer_status dev))"
  using xfer_status_shape[of dev] by auto

lemma xfer_status_retry_world: "same_world dev (snd (ft260_xfer_status_retry dev t))"
  using xfer_status_retry_shape[of t dev] by auto



theorem i2c_read_timeout_and_status_witness:
  "(\<exists>dev'. ft260_i2c_read idle_bridge 0x50 16 2 0x06 = (- ETIMEDOUT, dev') \<and>
      bus_resets (calls dev') = 1 \<and> status_requests (calls dev') = 0) \<and>
   (\<exists>dev'. ft260_i2c_read
        (idle_bridge\<lparr>hw_feature_in := (\<lambda>_. buf_of [0xC0, 0x02, 100, 0, 0]),
                      hw_input := (\<lambda>_. [two_byte_report])\<rparr>) 0x50 16 2 0x06 = (- EIO, dev') \<and>
      bus_resets (calls dev') = 1)"
proof -
  have a: "uint (2 :: u16) \<le> FT260_RD_DATA_MAX \<and> kmalloc_ok idle_bridge (now idle_bridge) \<and>
      0 \<le> hw_output_report idle_bridge (now idle_bridge)"
    by (simp add: idle_bridge_def)
  from i2c_read_timeout_and_status[where addr = "0x50" and flag = "0x06" and data = 16, OF a]
  obtain completed where
    c: "completed \<longleftrightarrow>
        (\<exists>k. 0 < k \<and> k \<le> length (hw_input idle_bridge (Suc (now idle_bridge))) \<and>
           is_i2c_data_report (hw_input idle_bridge (Suc (now idle_bridge)) ! (k - 1)) \<and>
           of_nat (length (i2c_data (take k (hw_input idle_bridge (Suc (now idle_bridge)))))) =
             (2 :: u16))"
    and t: "\<not> completed \<longrightarrow>
        (\<exists>x dev'. ft260_i2c_read idle_bridge 0x50 16 2 0x06 = (- ETIMEDOUT, dev') \<and>
           bus_resets (calls dev') = bus_resets (calls idle_bridge) + 1 \<and>
           status_requests (calls dev') = status_requests (calls idle_bridge))"
    by blast
  have "\<not> completed" unfolding c by (simp add: idle_bridge_def)
  with t have p1: "\<exists>dev'. ft260_i2c_read idle_bridge 0x50 16 2 0x06 = (- ETIMEDOUT, dev') \<and>
      bus_resets (calls dev') = 1 \<and> status_requests (calls dev') = 0"
    by (auto simp add: idle_bridge_def)
  define d where "d = idle_bridge\<lparr>hw_feature_in := (\<lambda>_. buf_of [0xC0, 0x02, 100, 0, 0]),
                      hw_input := (\<lambda>_. [two_byte_report])\<rparr>"
  have d: "kmalloc_ok d = (\<lambda>_. True)" "hw_raw_request d = (\<lambda>_. 5)"
    "hw_feature_in d = (\<lambda>_. buf_of [0xC0, 0x02, 100, 0, 0])"
    "hw_input d = (\<lambda>_. [two_byte_report])" "hw_output_report d = (\<lambda>_. 64)" "calls d = []"
    by (simp_all add: d_def idle_bridge_def)
  have b: "uint (2 :: u16) \<le> FT260_RD_DATA_MAX \<and> kmalloc_ok d (now d) \<and>
      0 \<le> hw_output_report d (now d)"
    by (simp add: d)
  from i2c_read_timeout_and_status[where addr = "0x50" and flag = "0x06" and data = 16, OF b]
  obtain sent completed' waited where
    s: "sent = log_call (OutputReport [0xC2, 0x50, 0x06, ucast (2 :: u16), ucast (drop_bit 8 (2 :: u16))]
                        (hw_output_report d (now d)))
              (d\<lparr>read_idx := 0, read_buf := 16, read_len := 2, wait := 0\<rparr>)"
    and w: "wait_for_completion_timeout sent 5000 = (completed', waited)"
    and c': "completed' \<longleftrightarrow>
        (\<exists>k. 0 < k \<and> k \<le> length (hw_input d (Suc (now d))) \<and>
           is_i2c_data_report (hw_input d (Suc (now d)) ! (k - 1)) \<and>
           of_nat (length (i2c_data (take k (hw_input d (Suc (now d)))))) = (2 :: u16))"
    and e: "completed' \<and> fst (ft260_xfer_status waited) \<noteq> 0 \<longrightarrow>
        (\<exists>x dev'. ft260_i2c_read d 0x50 16 2 0x06 = (- EIO, dev') \<and>
           bus_resets (calls dev') = bus_resets (calls d) + 1)"
    by blast
  have "0 < (1 :: nat) \<and> 1 \<le> length (hw_input d (Suc (now d))) \<and>
           is_i2c_data_report (hw_input d (Suc (now d)) ! (1 - 1)) \<and>
           of_nat (length (i2c_data (take 1 (hw_input d (Suc (now d)))))) = (2 :: u16)"
    by (simp add: d two_byte_report_facts)
  then have comp: completed' unfolding c' by blast
  have "wait sent = 0" by (simp add: s)
  from wait_for_completion_timeout_world[OF this, of 5000] w
  have "same_world sent waited" by simp
  moreover have "same_world d sent" by (simp add: s)
  ultimately have sw: "same_world d waited" by (rule same_world_trans[rotated])
  then have "kmalloc_ok waited (now waited)" "hw_raw_request waited (now waited) = 5"
    "uint (hw_feature_in waited (now waited) 1) = FT260_I2C_STATUS_ERROR"
    by (simp_all add: same_world_def d buf_of_def)
  from xfer_status_answered(5)[OF this] have "fst (ft260_xfer_status waited) \<noteq> 0" by simp
  with e comp have p2: "\<exists>dev'. ft260_i2c_read d 0x50 16 2 0x06 = (- EIO, dev') \<and>
      bus_resets (calls dev') = 1"
    by (auto simp add: d)
  show ?thesis using p1 p2 unfolding d_def by blast
qed


lemma output_reports_simps [simp]:
  "output_reports [] = []"
  "output_reports (xs @ ys) = output_reports xs @ output_reports ys"
  "output_reports (c # cs) = output_report_of c @ output_reports cs"
  by (simp_all add: output_reports_def)

lemma bytes_write_report:
  "bytes (memcpy (wb(0 := a, 1 := b, 3 := c, 2 := d)) 4 src n) (n + 4) = [a, b, d, c] @ bytes src n"
proof (rule nth_equalityI)
  show "length (bytes (memcpy (wb(0 := a, 1 := b, 3 := c, 2 := d)) 4 src n) (n + 4)) =
      length ([a, b, d, c] @ bytes src n)" by simp
next
  fix i assume "i < length (bytes (memcpy (wb(0 := a, 1 := b, 3 := c, 2 := d)) 4 src n) (n + 4))"
  then have i: "i < n + 4" by simp
  consider "i = 0" | "i = 1" | "i = 2" | "i = 3" | "4 \<le> i" by arith
  then show "bytes (memcpy (wb(0 := a, 1 := b, 3 := c, 2 := d)) 4 src n) (n + 4) ! i =
      ([a, b, d, c] @ bytes src n) ! i"
  proof cases
    case 5
    then have "i - 4 < n" using i by arith
    then show ?thesis using 5 i by (simp add: memcpy_def nth_append eval_nat_numeral)
  qed (use i in \<open>simp_all add: memcpy_def\<close>)
qed

text \<open>What the status check adds to the log: the report it was given, then no further output report.\<close>

lemma check_status_calls:
  assumes "ft260_hid_output_report_check_status dev data len = Inr (ret, dev')"
  shows "\<exists>r rest. calls dev' = calls dev @ OutputReport (bytes data (nat len)) r # rest \<and>
           output_reports rest = [] \<and> (ret = 0 \<longrightarrow> 0 \<le> r) \<and>
           same_world dev dev' \<and> write_buf dev' = write_buf dev \<and> mem dev' = mem dev"
proof -
  define r where "r = (if kmalloc_ok dev (now dev) then hw_output_report dev (now dev) else - ENOMEM)"
  define dev1 where "dev1 = log_call (OutputReport (bytes data (nat len)) r) dev"
  have o: "ft260_hid_output_report dev data (nat len) = (r, dev1)"
    by (simp add: output_report_eq Let_def r_def dev1_def)
  show ?thesis
  proof (cases "r < 0")
    case True
    then have "ft260_hid_output_report_check_status dev data len = Inr (r, snd (ft260_i2c_reset dev1))"
      by (simp add: ft260_hid_output_report_check_status_def o)
    with assms have "ret = r" "dev' = snd (ft260_i2c_reset dev1)" by simp_all
    then show ?thesis using True
      by (auto simp add: reset_eq Let_def dev1_def)
  next
    case False
    show ?thesis
    proof (cases "clock dev1 = 0")
      case True
      then have "ft260_hid_output_report_check_status dev data len = Inl DivideError"
        using False by (simp add: ft260_hid_output_report_check_status_def o)
      with assms show ?thesis by simp
    next
      case nz: False
      define usec where "usec = 10000 div uint (clock dev1) * len"
      define dev2 where "dev2 = log_call (UsleepRange usec (usec + 100)) dev1"
      obtain c rs where rs: "snd (ft260_xfer_status_retry dev2 3) =
          dev2\<lparr>clock := c, calls := calls dev2 @ map (FeatureGet 0xC0 5) rs\<rparr>"
        using xfer_status_retry_shape[of 3 dev2] by blast
      define dev3 where "dev3 = snd (ft260_xfer_status_retry dev2 3)"
      define st where "st = fst (ft260_xfer_status_retry dev2 3)"
      have or: "output_reports (map (FeatureGet 0xC0 5) rs) = []"
        by (induction rs) simp_all
      have c3: "calls dev3 = calls dev @ OutputReport (bytes data (nat len)) r #
          (UsleepRange usec (usec + 100) # map (FeatureGet 0xC0 5) rs)"
        unfolding dev3_def rs by (simp add: dev2_def dev1_def)
      have w3: "same_world dev dev3" "write_buf dev3 = write_buf dev" "mem dev3 = mem dev"
        unfolding dev3_def rs by (simp_all add: dev2_def dev1_def)
      have u: "ft260_hid_output_report_check_status dev data len =
          (if st = 0 \<or> st = - EBUSY then Inr (0, dev3) else Inr (- EIO, snd (ft260_i2c_reset dev3)))"
        using False nz
        by (simp add: ft260_hid_output_report_check_status_def o Let_def usec_def dev2_def
              split_def st_def dev3_def)
      show ?thesis
      proof (cases "st = 0 \<or> st = - EBUSY")
        case True
        with u assms have "ret = 0" "dev' = dev3" by simp_all
        then show ?thesis using c3 w3 or False by auto
      next
        case f: False
        with u assms have "ret = - EIO" "dev' = snd (ft260_i2c_reset dev3)" by simp_all
        then show ?thesis using c3 w3 or
          by (auto simp add: reset_eq Let_def)
      qed
    qed
  qed
qed


lemma write_loop_step:
  "ft260_i2c_write_loop dev addr data data_len idx flag =
     (let len = (if data_len \<le> 60 then data_len else 60);
          rep = memcpy ((write_buf dev)(0 := of_int (FT260_I2C_DATA_REPORT_ID len), 1 := addr,
                   3 := of_int len, 2 := flag)) 4 (at_off data (nat idx)) (nat len)
      in case ft260_hid_output_report_check_status (dev\<lparr>write_buf := rep\<rparr>) rep (len + 4) of
           Inl f \<Rightarrow> Inl f
         | Inr (ret, dev2) \<Rightarrow>
             if ret < 0 then Inr (ret, dev2)
             else if data_len - len > 0
             then ft260_i2c_write_loop dev2 addr data (data_len - len) (idx + len) flag
             else Inr (0, dev2))"
  by (subst ft260_i2c_write_loop.simps) (simp add: Let_def)

lemma write_loop_reports:
  assumes "0 \<le> data_len" and "0 \<le> idx"
    and "ft260_i2c_write_loop dev addr data data_len idx flag = Inr (0, dev')"
  shows "\<exists>new. calls dev' = calls dev @ new \<and>
           output_reports new = write_fragments addr flag data (nat idx) (nat data_len) \<and>
           same_world dev dev' \<and> mem dev' = mem dev"
  using assms
proof (induction "nat data_len" arbitrary: dev idx data_len rule: less_induct)
  case less
  define len where "len = (if data_len \<le> 60 then data_len else 60)"
  define rep where "rep = memcpy ((write_buf dev)(0 := of_int (FT260_I2C_DATA_REPORT_ID len),
      1 := addr, 3 := of_int len, 2 := flag)) 4 (at_off data (nat idx)) (nat len)"
  define dev1 where "dev1 = dev\<lparr>write_buf := rep\<rparr>"
  have len0: "0 \<le> len" "nat len = min (nat data_len) 60" "len \<le> 60"
    using less.prems(1) by (auto simp add: len_def)
  have step: "ft260_i2c_write_loop dev addr data data_len idx flag =
      (case ft260_hid_output_report_check_status dev1 rep (len + 4) of
           Inl f \<Rightarrow> Inl f
         | Inr (ret, dev2) \<Rightarrow>
             if ret < 0 then Inr (ret, dev2)
             else if data_len - len > 0
             then ft260_i2c_write_loop dev2 addr data (data_len - len) (idx + len) flag
             else Inr (0, dev2))"
    unfolding write_loop_step[of dev] Let_def len_def[symmetric] rep_def[symmetric]
      dev1_def[symmetric] ..
  obtain ret dev2 where cs: "ft260_hid_output_report_check_status dev1 rep (len + 4) = Inr (ret, dev2)"
    using less.prems(3) unfolding step
    by (cases "ft260_hid_output_report_check_status dev1 rep (len + 4)") auto
  have ret: "\<not> ret < 0" using less.prems(3) unfolding step cs by (auto split: if_splits)
  from check_status_calls[OF cs] obtain r rest where
    c2: "calls dev2 = calls dev1 @ OutputReport (bytes rep (nat (len + 4))) r # rest"
    and rest: "output_reports rest = []"
    and w2: "same_world dev1 dev2" "mem dev2 = mem dev1"
    by blast
  have n4: "nat (len + 4) = nat len + 4" using len0 by simp
  have frag: "bytes rep (nat (len + 4)) =
      [of_int (FT260_I2C_DATA_REPORT_ID len), addr, flag, of_int len] @
        bytes (at_off data (nat idx)) (nat len)"
    unfolding rep_def n4 by (rule bytes_write_report)
  have head: "[of_int (FT260_I2C_DATA_REPORT_ID len), addr, flag, of_int len] @
        bytes (at_off data (nat idx)) (nat len) =
     [of_int (FT260_I2C_DATA_REPORT_ID (int (min (nat data_len) 60))), addr, flag,
        of_nat (min (nat data_len) 60)] @
        bytes (at_off data (nat idx)) (min (nat data_len) 60)"
  proof -
    have "int (min (nat data_len) 60) = len" using len0 by simp
    moreover have "(of_nat (min (nat data_len) 60) :: u8) = of_int len"
      using len0 by (metis of_int_of_nat_eq calculation)
    ultimately show ?thesis using len0(2) by simp
  qed
  have wf: "write_fragments addr flag data (nat idx) (nat data_len) =
      bytes rep (nat (len + 4)) #
        (if nat data_len > 60
         then write_fragments addr flag data (nat idx + 60) (nat data_len - 60) else [])"
    by (subst write_fragments.simps) (simp only: frag head)
  have c1: "calls dev1 = calls dev" "same_world dev dev1" "mem dev1 = mem dev"
    by (simp_all add: dev1_def)
  show ?case
  proof (cases "data_len - len > 0")
    case True
    then have big: "60 < data_len" "len = 60" by (auto simp add: len_def split: if_splits)
    have rec: "ft260_i2c_write_loop dev2 addr data (data_len - 60) (idx + 60) flag = Inr (0, dev')"
      using less.prems(3) ret True unfolding step cs by (simp add: big)
    have "nat (data_len - 60) < nat data_len" using big by simp
    from less.hyps[OF this _ _ rec] less.prems(2) big
    obtain new where new: "calls dev' = calls dev2 @ new"
      "output_reports new = write_fragments addr flag data (nat (idx + 60)) (nat (data_len - 60))"
      "same_world dev2 dev'" "mem dev' = mem dev2"
      by auto
    have nn: "nat (idx + 60) = nat idx + 60" "nat (data_len - 60) = nat data_len - 60"
      "60 < nat data_len"
      using less.prems(2) big by simp_all
    have "write_fragments addr flag data (nat idx) (nat data_len) =
        bytes rep (nat (len + 4)) # write_fragments addr flag data (nat idx + 60) (nat data_len - 60)"
      using wf nn by simp
    then have "output_reports (OutputReport (bytes rep (nat (len + 4))) r # rest @ new) =
        write_fragments addr flag data (nat idx) (nat data_len)"
      using rest new(2) nn by simp
    moreover have "calls dev' = calls dev @ (OutputReport (bytes rep (nat (len + 4))) r # rest @ new)"
      using new(1) c2 c1 by simp
    moreover have "same_world dev dev'"
      using same_world_trans[OF same_world_trans[OF c1(2) w2(1)] new(3)] .
    moreover have "mem dev' = mem dev" using new(4) w2(2) c1(3) by simp
    ultimately show ?thesis by blast
  next
    case False
    then have small: "data_len \<le> 60" "\<not> 60 < nat data_len" by (auto simp add: len_def split: if_splits)
    have d: "dev' = dev2" using less.prems(3) ret False unfolding step cs by simp
    have "write_fragments addr flag data (nat idx) (nat data_len) = [bytes rep (nat (len + 4))]"
      using wf small by simp
    then have "output_reports (OutputReport (bytes rep (nat (len + 4))) r # rest) =
        write_fragments addr flag data (nat idx) (nat data_len)"
      using rest by simp
    moreover have "calls dev' = calls dev @ (OutputReport (bytes rep (nat (len + 4))) r # rest)"
      using d c2 c1 by simp
    moreover have "same_world dev dev'" using d same_world_trans[OF c1(2) w2(1)] by simp
    moreover have "mem dev' = mem dev" using d w2(2) c1(3) by simp
    ultimately show ?thesis by blast
  qed
qed

section \<open>Status polling after a send\<close>

lemma status_code_env [simp]:
  "status_code (log_call c dev) = status_code dev"
  "status_code (dev\<lparr>clock := ck\<rparr>) = status_code dev"
  "status_code (dev\<lparr>calls := cs\<rparr>) = status_code dev"
  by (simp_all add: status_code_def fun_eq_iff log_call_def)

lemma xfer_status_code: "fst (ft260_xfer_status dev) = status_code dev (now dev)"
proof (cases "kmalloc_ok dev (now dev) \<and> hw_raw_request dev (now dev) = 5")
  case True
  have g: "ft260_hid_feature_report_get dev 0xC0 (\<lambda>_. 0) 5 =
      (5, memcpy (\<lambda>_. 0) 0 (hw_feature_in dev (now dev)) 5, log_call (FeatureGet 0xC0 5 5) dev)"
    using True by (simp add: ft260_hid_feature_report_get_def Let_def)
  have b: "memcpy (\<lambda>_. 0) 0 (hw_feature_in dev (now dev)) 5 (Suc 0) = hw_feature_in dev (now dev) 1"
    by (simp add: memcpy_def)
  show ?thesis
    using True by (simp add: ft260_xfer_status_def g Let_def b status_code_def)
next
  case False
  then show ?thesis
    by (auto simp add: ft260_xfer_status_def ft260_hid_feature_report_get_def Let_def
          status_code_def)
qed

lemma xfer_status_retry_codes:
  "\<exists>n c rs. 1 \<le> n \<and> n \<le> max 1 t \<and> length rs = n \<and>
     (\<forall>k < n - 1. status_code dev (now dev + k) = - EAGAIN) \<and>
     (n < max 1 t \<longrightarrow> status_code dev (now dev + (n - 1)) \<noteq> - EAGAIN) \<and>
     ft260_xfer_status_retry dev t =
       (status_code dev (now dev + (n - 1)),
        dev\<lparr>clock := c, calls := calls dev @ map (FeatureGet 0xC0 5) rs\<rparr>)"
proof (induction dev t rule: ft260_xfer_status_retry.induct)
  case (1 dev tr)
  obtain ret dev1 where st: "ft260_xfer_status dev = (ret, dev1)"
    by (cases "ft260_xfer_status dev")
  from xfer_status_shape[of dev] st obtain c r where
    d1: "dev1 = dev\<lparr>clock := c, calls := calls dev @ [FeatureGet 0xC0 5 r]\<rparr>" by auto
  have ret: "status_code dev (now dev) = ret" using xfer_status_code[of dev] st by simp
  show ?case
  proof (cases "ret \<noteq> - EAGAIN \<or> tr - 1 = 0")
    case True
    then have h: "1 < max 1 tr \<longrightarrow> ret \<noteq> - EAGAIN" by auto
    have "ft260_xfer_status_retry dev tr = (ret, dev1)"
      using st True by (subst ft260_xfer_status_retry.simps) auto
    then have "ft260_xfer_status_retry dev tr =
         (ret, dev\<lparr>clock := c, calls := calls dev @ map (FeatureGet 0xC0 5) [r]\<rparr>)"
      unfolding d1 by simp
    then show ?thesis
      apply (intro exI[of _ "1::nat"] exI[of _ c] exI[of _ "[r]"])
      using h by (simp add: ret)
  next
    case False
    then obtain t where t: "tr - 1 = Suc t" by (cases "tr - 1") auto
    from False have e: "ret = - EAGAIN" by simp
    have ih: "\<exists>n c rs. 1 \<le> n \<and> n \<le> max 1 (Suc t) \<and> length rs = n \<and>
     (\<forall>k < n - 1. status_code dev1 (now dev1 + k) = - EAGAIN) \<and>
     (n < max 1 (Suc t) \<longrightarrow> status_code dev1 (now dev1 + (n - 1)) \<noteq> - EAGAIN) \<and>
     ft260_xfer_status_retry dev1 (Suc t) =
       (status_code dev1 (now dev1 + (n - 1)),
        dev1\<lparr>clock := c, calls := calls dev1 @ map (FeatureGet 0xC0 5) rs\<rparr>)"
      by (rule "1.IH"[OF st[symmetric] _ t]) (simp add: e)
    then obtain n c' rs where n: "1 \<le> n" "n \<le> max 1 (Suc t)" "length rs = n"
      "\<forall>k < n - 1. status_code dev1 (now dev1 + k) = - EAGAIN"
      "n < max 1 (Suc t) \<longrightarrow> status_code dev1 (now dev1 + (n - 1)) \<noteq> - EAGAIN"
      "ft260_xfer_status_retry dev1 (Suc t) =
        (status_code dev1 (now dev1 + (n - 1)),
         dev1\<lparr>clock := c', calls := calls dev1 @ map (FeatureGet 0xC0 5) rs\<rparr>)" by blast
    have sc: "status_code dev1 = status_code dev" unfolding d1 by simp
    have nw: "now dev1 + j = now dev + Suc j" for j unfolding d1 by (simp add: now_def)
    have tr: "max 1 tr = Suc (Suc t)" using t by simp
    have eq: "ft260_xfer_status_retry dev tr = ft260_xfer_status_retry dev1 (Suc t)"
      using st e t by (subst ft260_xfer_status_retry.simps) simp
    have a: "\<forall>k < Suc n - 1. status_code dev (now dev + k) = - EAGAIN"
    proof (intro allI impI)
      fix k assume k: "k < Suc n - 1"
      show "status_code dev (now dev + k) = - EAGAIN"
      proof (cases k)
        case 0
        then show ?thesis using ret e by simp
      next
        case (Suc j)
        then have "j < n - 1" using k by simp
        from n(4)[rule_format, OF this] show ?thesis unfolding sc nw Suc .
      qed
    qed
    have n1: "Suc n - 1 = Suc (n - 1)" using n(1) by simp
    have b: "Suc n < max 1 tr \<longrightarrow> status_code dev (now dev + (Suc n - 1)) \<noteq> - EAGAIN"
      using n(5) unfolding sc nw tr n1 by simp
    have "dev1\<lparr>clock := c', calls := calls dev1 @ map (FeatureGet 0xC0 5) rs\<rparr> =
        dev\<lparr>clock := c', calls := calls dev @ map (FeatureGet 0xC0 5) (r # rs)\<rparr>"
      unfolding d1 by simp
    then have c: "ft260_xfer_status_retry dev tr =
       (status_code dev (now dev + (Suc n - 1)),
        dev\<lparr>clock := c', calls := calls dev @ map (FeatureGet 0xC0 5) (r # rs)\<rparr>)"
      using n(6) unfolding eq sc nw n1 by simp
    have d: "1 \<le> Suc n \<and> Suc n \<le> max 1 tr \<and> length (r # rs) = Suc n"
      using n(1,2,3) tr by simp
    show ?thesis
      apply (intro exI[of _ "Suc n"] exI[of _ c'] exI[of _ "r # rs"])
      using a b c d by blast
  qed
qed

lemma status_requests_map [simp]: "status_requests (map (FeatureGet 0xC0 5) rs) = length rs"
  by (induction rs) simp_all

lemma bus_resets_map [simp]: "bus_resets (map (FeatureGet rid n) rs) = 0"
  by (induction rs) simp_all

text \<open>
  Claim C5, as amended. Once a report has been sent on the write path (and the wait
  computed), the status report is requested \<open>n\<close> times, with \<open>1 \<le> n \<le> 3\<close>: every request
  but the last returns \<open>-EAGAIN\<close>, and the last returns something else unless it is the
  third. A request returns \<open>status_code\<close>: the error of a request that fails, or else the
  decoding of the status byte by bit tests in this order: \<open>CTRL_BUSY\<close> set gives \<open>-EAGAIN\<close>
  (a retry, counted against the three tries); else \<open>BUS_BUSY\<close> set gives \<open>-EBUSY\<close>; else
  \<open>ERROR\<close> set gives \<open>-EIO\<close>; else \<open>CTRL_IDLE\<close> set gives 0; else \<open>-EIO\<close>. The bits
  \<open>ADDR_NO_ACK\<close>, \<open>DATA_NO_ACK\<close> and \<open>ARBITR_LOST\<close> are not tested. A last result 0 or
  \<open>-EBUSY\<close> ends the check with 0 and no reset; any other last result (a failure, or a
  third \<open>-EAGAIN\<close>) ends it with the bus-reset feature report \<open>[0xA1, 0x20]\<close> and \<open>-EIO\<close>.
\<close>

theorem check_status_polling:
  assumes "kmalloc_ok dev (now dev) \<and> 0 \<le> hw_output_report dev (now dev) \<and> clock dev \<noteq> 0"
  shows "\<exists>dev' n rs x.
     1 \<le> n \<and> n \<le> 3 \<and> length rs = n \<and>
     (\<forall>k < n - 1. status_code dev (now dev + 2 + k) = - EAGAIN) \<and>
     (n < 3 \<longrightarrow> status_code dev (now dev + 2 + (n - 1)) \<noteq> - EAGAIN) \<and>
     ft260_hid_output_report_check_status dev data len =
       Inr (if status_code dev (now dev + 2 + (n - 1)) = 0 \<or>
               status_code dev (now dev + 2 + (n - 1)) = - EBUSY then 0 else - EIO, dev') \<and>
     calls dev' = calls dev @
       [OutputReport (bytes data (nat len)) (hw_output_report dev (now dev)),
        UsleepRange (10000 div uint (clock dev) * len) (10000 div uint (clock dev) * len + 100)] @
       map (FeatureGet 0xC0 5) rs @
       (if status_code dev (now dev + 2 + (n - 1)) = 0 \<or>
           status_code dev (now dev + 2 + (n - 1)) = - EBUSY then []
        else [FeatureSet [0xA1, 0x20] x])"
proof -
  define usec where "usec = 10000 div uint (clock dev) * len"
  define sent where "sent = [OutputReport (bytes data (nat len)) (hw_output_report dev (now dev)),
            UsleepRange usec (usec + 100)]"
  define dev2 where "dev2 = log_call (UsleepRange usec (usec + 100))
     (log_call (OutputReport (bytes data (nat len)) (hw_output_report dev (now dev))) dev)"
  have c2: "calls dev2 = calls dev @ sent" by (simp add: dev2_def sent_def)
  have now2: "now dev2 = now dev + 2" by (simp add: dev2_def)
  have sc2: "status_code dev2 = status_code dev" by (simp add: dev2_def)
  have unfold: "ft260_hid_output_report_check_status dev data len =
      (case ft260_xfer_status_retry dev2 3 of (ret, dev3) \<Rightarrow>
         if ret = 0 \<or> ret = - EBUSY then Inr (0, dev3)
         else Inr (- EIO, snd (ft260_i2c_reset dev3)))"
    using assms
    by (simp add: ft260_hid_output_report_check_status_def output_report_eq Let_def
          dev2_def usec_def)
  have m3: "max 1 (3::nat) = 3" by simp
  from xfer_status_retry_codes[of 3 dev2, unfolded sc2 now2 m3] obtain n c rs where
    n: "1 \<le> n \<and> n \<le> 3 \<and> length rs = n \<and>
      (\<forall>k < n - 1. status_code dev (now dev + 2 + k) = - EAGAIN) \<and>
      (n < 3 \<longrightarrow> status_code dev (now dev + 2 + (n - 1)) \<noteq> - EAGAIN)"
    and r: "ft260_xfer_status_retry dev2 3 =
       (status_code dev (now dev + 2 + (n - 1)),
        dev2\<lparr>clock := c, calls := calls dev2 @ map (FeatureGet 0xC0 5) rs\<rparr>)"
    by blast
  define final where "final = status_code dev (now dev + 2 + (n - 1))"
  define dev3 where "dev3 = dev2\<lparr>clock := c, calls := calls dev2 @ map (FeatureGet 0xC0 5) rs\<rparr>"
  have c3: "calls dev3 = calls dev @ sent @ map (FeatureGet 0xC0 5) rs"
    by (simp add: dev3_def c2)
  have "\<exists>dev' x. ft260_hid_output_report_check_status dev data len =
       Inr (if final = 0 \<or> final = - EBUSY then 0 else - EIO, dev') \<and>
     calls dev' = calls dev @ sent @ map (FeatureGet 0xC0 5) rs @
       (if final = 0 \<or> final = - EBUSY then [] else [FeatureSet [0xA1, 0x20] x])"
  proof (cases "final = 0 \<or> final = - EBUSY")
    case True
    then have "ft260_hid_output_report_check_status dev data len = Inr (0, dev3)"
      unfolding unfold r final_def[symmetric] dev3_def[symmetric] by simp
    then show ?thesis
      apply (intro exI[of _ dev3] exI[of _ 0])
      using True c3 by simp
  next
    case False
    define x where "x = fst (ft260_i2c_reset dev3)"
    have "ft260_hid_output_report_check_status dev data len =
        Inr (- EIO, snd (ft260_i2c_reset dev3))"
      unfolding unfold r final_def[symmetric] dev3_def[symmetric] using False by simp
    moreover have "calls (snd (ft260_i2c_reset dev3)) =
        calls dev @ sent @ map (FeatureGet 0xC0 5) rs @ [FeatureSet [0xA1, 0x20] x]"
      by (simp add: reset_eq Let_def c3 x_def)
    ultimately show ?thesis
      apply (intro exI[of _ "snd (ft260_i2c_reset dev3)"] exI[of _ x])
      using False by simp
  qed
  then obtain dev' x where
    "ft260_hid_output_report_check_status dev data len =
       Inr (if final = 0 \<or> final = - EBUSY then 0 else - EIO, dev') \<and>
     calls dev' = calls dev @ sent @ map (FeatureGet 0xC0 5) rs @
       (if final = 0 \<or> final = - EBUSY then [] else [FeatureSet [0xA1, 0x20] x])"
    by blast
  then show ?thesis
    unfolding final_def sent_def usec_def
    apply (intro exI[of _ dev'] exI[of _ n] exI[of _ rs] exI[of _ x])
    using n by blast
qed

lemma status_code_idle_bridge: "status_code idle_bridge t = 0"
  by (simp add: status_code_def idle_bridge_def buf_of_def)

lemma status_code_busy:
  "status_code (idle_bridge\<lparr>hw_feature_in := (\<lambda>_. buf_of [0xC0, 0x01, 100, 0, 0])\<rparr>) t = - EAGAIN"
  by (simp add: status_code_def idle_bridge_def buf_of_def)

lemma status_code_error_busy: "status_code error_busy_bridge t = - EBUSY"
  by (simp add: status_code_def error_busy_bridge_def idle_bridge_def buf_of_def)

lemma status_code_no_ack_idle: "status_code no_ack_idle_bridge t = 0"
  by (simp add: status_code_def no_ack_idle_bridge_def idle_bridge_def buf_of_def)

theorem check_status_polling_witness:
  "(\<exists>dev'. ft260_hid_output_report_check_status idle_bridge two_byte_report 4 = Inr (0, dev') \<and>
      status_requests (calls dev') = 1 \<and> bus_resets (calls dev') = 0) \<and>
   (\<exists>dev'. ft260_hid_output_report_check_status
        (idle_bridge\<lparr>hw_feature_in := (\<lambda>_. buf_of [0xC0, 0x01, 100, 0, 0])\<rparr>) two_byte_report 4
        = Inr (- EIO, dev') \<and>
      status_requests (calls dev') = 3 \<and> bus_resets (calls dev') = 1)"
proof -
  define busy where "busy = idle_bridge\<lparr>hw_feature_in := (\<lambda>_. buf_of [0xC0, 0x01, 100, 0, 0])\<rparr>"
  have a: "kmalloc_ok idle_bridge (now idle_bridge) \<and>
      0 \<le> hw_output_report idle_bridge (now idle_bridge) \<and> clock idle_bridge \<noteq> 0"
    by (simp add: idle_bridge_def)
  have b: "kmalloc_ok busy (now busy) \<and> 0 \<le> hw_output_report busy (now busy) \<and> clock busy \<noteq> 0"
    by (simp add: idle_bridge_def busy_def)
  have ci: "calls idle_bridge = []" "calls busy = []" by (simp_all add: idle_bridge_def busy_def)
  have sb: "status_code busy t = - EAGAIN" for t unfolding busy_def by (rule status_code_busy)
  have "\<exists>dev' n rs. 1 \<le> n \<and> length rs = n \<and> (\<forall>k < n - 1. (0::int) = - EAGAIN) \<and>
      ft260_hid_output_report_check_status idle_bridge two_byte_report 4 = Inr (0, dev') \<and>
      calls dev' = [OutputReport (bytes two_byte_report (nat 4)) (hw_output_report idle_bridge (now idle_bridge)),
        UsleepRange (10000 div uint (clock idle_bridge) * 4) (10000 div uint (clock idle_bridge) * 4 + 100)] @
       map (FeatureGet 0xC0 5) rs"
    using check_status_polling[OF a, of two_byte_report 4]
    unfolding status_code_idle_bridge ci by simp blast
  then obtain dev' n rs where
    n: "1 \<le> n" "length rs = n" "\<forall>k < n - 1. (0::int) = - EAGAIN"
    and r: "ft260_hid_output_report_check_status idle_bridge two_byte_report 4 = Inr (0, dev')"
    and c: "calls dev' = [OutputReport (bytes two_byte_report (nat 4)) (hw_output_report idle_bridge (now idle_bridge)),
        UsleepRange (10000 div uint (clock idle_bridge) * 4) (10000 div uint (clock idle_bridge) * 4 + 100)] @
       map (FeatureGet 0xC0 5) rs"
    by blast
  have "n = 1"
  proof (rule ccontr)
    assume "n \<noteq> 1"
    then have "0 < n - 1" using n(1) by simp
    from n(3)[rule_format, OF this] show False by simp
  qed
  then have first: "\<exists>dev'. ft260_hid_output_report_check_status idle_bridge two_byte_report 4 = Inr (0, dev') \<and>
      status_requests (calls dev') = 1 \<and> bus_resets (calls dev') = 0"
    using r c n(2) by (intro exI[of _ dev']) simp
  have "\<exists>dev'' m rs' x'. m \<le> 3 \<and> length rs' = m \<and> \<not> m < 3 \<and>
      ft260_hid_output_report_check_status busy two_byte_report 4 = Inr (- EIO, dev'') \<and>
      calls dev'' = [OutputReport (bytes two_byte_report (nat 4)) (hw_output_report busy (now busy)),
        UsleepRange (10000 div uint (clock busy) * 4) (10000 div uint (clock busy) * 4 + 100)] @
       map (FeatureGet 0xC0 5) rs' @ [FeatureSet [0xA1, 0x20] x']"
    using check_status_polling[OF b, of two_byte_report 4]
    unfolding sb ci by simp blast
  then obtain dev'' m rs' x' where
    m: "m \<le> 3" "length rs' = m" "\<not> m < 3"
    and r': "ft260_hid_output_report_check_status busy two_byte_report 4 = Inr (- EIO, dev'')"
    and c': "calls dev'' = [OutputReport (bytes two_byte_report (nat 4)) (hw_output_report busy (now busy)),
        UsleepRange (10000 div uint (clock busy) * 4) (10000 div uint (clock busy) * 4 + 100)] @
       map (FeatureGet 0xC0 5) rs' @ [FeatureSet [0xA1, 0x20] x']"
    by blast
  have "m = 3" using m by simp
  then have second: "\<exists>dev'. ft260_hid_output_report_check_status busy two_byte_report 4 = Inr (- EIO, dev') \<and>
      status_requests (calls dev') = 3 \<and> bus_resets (calls dev') = 1"
    using r' c' m(2) by (intro exI[of _ dev'']) simp
  show ?thesis using first second unfolding busy_def by blast
qed

lemma check_status_answered_once:
  assumes "kmalloc_ok dev (now dev) \<and> 0 \<le> hw_output_report dev (now dev) \<and> clock dev \<noteq> 0"
    and "kmalloc_ok dev (now dev + 2) \<and> hw_raw_request dev (now dev + 2) = 5"
    and "status_code dev (now dev + 2) = 0 \<or> status_code dev (now dev + 2) = - EBUSY"
  shows "ft260_hid_output_report_check_status dev data len =
     Inr (0, dev\<lparr>clock := le16_to_cpu (hw_feature_in dev (now dev + 2) 2)
                               (hw_feature_in dev (now dev + 2) 3),
               calls := calls dev @
                 [OutputReport (bytes data (nat len)) (hw_output_report dev (now dev)),
                  UsleepRange (10000 div uint (clock dev) * len)
                    (10000 div uint (clock dev) * len + 100),
                  FeatureGet 0xC0 5 5]\<rparr>)"
proof -
  define usec where "usec = 10000 div uint (clock dev) * len"
  define dev2 where "dev2 = log_call (UsleepRange usec (usec + 100))
     (log_call (OutputReport (bytes data (nat len)) (hw_output_report dev (now dev))) dev)"
  have now2: "now dev2 = now dev + 2" by (simp add: dev2_def)
  have env2: "kmalloc_ok dev2 = kmalloc_ok dev" "hw_raw_request dev2 = hw_raw_request dev"
    "hw_feature_in dev2 = hw_feature_in dev" "status_code dev2 = status_code dev"
    by (simp_all add: dev2_def)
  have unfold: "ft260_hid_output_report_check_status dev data len =
      (case ft260_xfer_status_retry dev2 3 of (ret, dev3) \<Rightarrow>
         if ret = 0 \<or> ret = - EBUSY then Inr (0, dev3)
         else Inr (- EIO, snd (ft260_i2c_reset dev3)))"
    using assms(1)
    by (simp add: ft260_hid_output_report_check_status_def output_report_eq Let_def
          dev2_def usec_def)
  have g: "ft260_hid_feature_report_get dev2 0xC0 (\<lambda>_. 0) 5 =
      (5, memcpy (\<lambda>_. 0) 0 (hw_feature_in dev2 (now dev2)) 5, log_call (FeatureGet 0xC0 5 5) dev2)"
    using assms(2) by (simp add: ft260_hid_feature_report_get_def Let_def env2 now2)
  have s2: "snd (ft260_xfer_status dev2) = (log_call (FeatureGet 0xC0 5 5) dev2)
      \<lparr>clock := le16_to_cpu (hw_feature_in dev2 (now dev2) 2) (hw_feature_in dev2 (now dev2) 3)\<rparr>"
    by (simp add: ft260_xfer_status_def g Let_def memcpy_def)
  have f2: "fst (ft260_xfer_status dev2) = status_code dev (now dev + 2)"
    unfolding xfer_status_code env2 now2 ..
  have st: "ft260_xfer_status dev2 = (status_code dev (now dev + 2), (log_call (FeatureGet 0xC0 5 5) dev2)
      \<lparr>clock := le16_to_cpu (hw_feature_in dev2 (now dev2) 2) (hw_feature_in dev2 (now dev2) 3)\<rparr>)"
    using s2 f2 by (metis prod.collapse)
  have rt: "ft260_xfer_status_retry dev2 3 = (status_code dev (now dev + 2), (log_call (FeatureGet 0xC0 5 5) dev2)
      \<lparr>clock := le16_to_cpu (hw_feature_in dev2 (now dev2) 2) (hw_feature_in dev2 (now dev2) 3)\<rparr>)"
    using assms(3) by (subst ft260_xfer_status_retry.simps) (auto simp add: st)
  have d: "(log_call (FeatureGet 0xC0 5 5) dev2)
      \<lparr>clock := le16_to_cpu (hw_feature_in dev2 (now dev2) 2) (hw_feature_in dev2 (now dev2) 3)\<rparr> =
     dev\<lparr>clock := le16_to_cpu (hw_feature_in dev (now dev + 2) 2)
                               (hw_feature_in dev (now dev + 2) 3),
               calls := calls dev @
                 [OutputReport (bytes data (nat len)) (hw_output_report dev (now dev)),
                  UsleepRange (10000 div uint (clock dev) * len)
                    (10000 div uint (clock dev) * len + 100),
                  FeatureGet 0xC0 5 5]\<rparr>"
    unfolding env2 now2 by (simp add: dev2_def log_call_def usec_def)
  show ?thesis
    unfolding unfold rt d using assms(3) by auto
qed

text \<open>
  A status byte with \<open>ERROR\<close> and \<open>BUS_BUSY\<close> set, and one with \<open>ADDR_NO_ACK\<close> and
  \<open>CTRL_IDLE\<close> set: the check returns 0 after one status request, with no bus reset.
\<close>

theorem check_status_error_bit_counterexample:
  "ft260_hid_output_report_check_status error_busy_bridge two_byte_report 4 =
     Inr (0, error_busy_bridge\<lparr>calls :=
       [OutputReport [0xD0, 2, 0xAA, 0xBB] 64, UsleepRange 400 500, FeatureGet 0xC0 5 5]\<rparr>) \<and>
   uint (hw_feature_in error_busy_bridge 2 1) = FT260_I2C_STATUS_ERROR + FT260_I2C_STATUS_BUS_BUSY \<and>
   ft260_hid_output_report_check_status no_ack_idle_bridge two_byte_report 4 =
     Inr (0, no_ack_idle_bridge\<lparr>calls :=
       [OutputReport [0xD0, 2, 0xAA, 0xBB] 64, UsleepRange 400 500, FeatureGet 0xC0 5 5]\<rparr>) \<and>
   uint (hw_feature_in no_ack_idle_bridge 2 1) =
     FT260_I2C_STATUS_ADDR_NO_ACK + FT260_I2C_STATUS_CTRL_IDLE"
proof -
  have le: "le16_to_cpu 100 0 = 100" by (simp add: le16_to_cpu_def)
  have b4: "bytes two_byte_report 4 = [0xD0, 2, 0xAA, 0xBB]"
    unfolding two_byte_report_def by (rule bytes_buf_of) simp
  have 1: "ft260_hid_output_report_check_status error_busy_bridge two_byte_report 4 =
     Inr (0, error_busy_bridge\<lparr>calls :=
       [OutputReport [0xD0, 2, 0xAA, 0xBB] 64, UsleepRange 400 500, FeatureGet 0xC0 5 5]\<rparr>)"
    by (subst check_status_answered_once)
       (simp_all add: status_code_error_busy b4,
        simp_all add: error_busy_bridge_def idle_bridge_def now_def buf_of_def le)
  have 2: "ft260_hid_output_report_check_status no_ack_idle_bridge two_byte_report 4 =
     Inr (0, no_ack_idle_bridge\<lparr>calls :=
       [OutputReport [0xD0, 2, 0xAA, 0xBB] 64, UsleepRange 400 500, FeatureGet 0xC0 5 5]\<rparr>)"
    by (subst check_status_answered_once)
       (simp_all add: status_code_no_ack_idle b4,
        simp_all add: no_ack_idle_bridge_def idle_bridge_def now_def buf_of_def le)
  show ?thesis using 1 2
    by (simp add: error_busy_bridge_def no_ack_idle_bridge_def idle_bridge_def buf_of_def)
qed

section \<open>I2C write: the fragments\<close>

lemma bytes_append: "bytes p (a + b) = bytes p a @ bytes (at_off p a) b"
  by (induction b) (simp_all add: bytes_def at_off_def)

lemma at_off_at_off [simp]: "at_off (at_off p a) b = at_off p (a + b)"
  by (simp add: at_off_def fun_eq_iff add.assoc)

lemma at_off_0 [simp]: "at_off p 0 = p"
  by (simp add: at_off_def)

lemma write_fragments_length:
  "length (write_fragments addr flag data idx n) = (if n = 0 then 1 else (n + 59) div 60)"
proof (induction n arbitrary: idx rule: less_induct)
  case (less n)
  show ?case
  proof (cases "60 < n")
    case True
    then have "n - 60 < n" by simp
    from less[OF this, of "idx + 60"] True show ?thesis
      by (subst write_fragments.simps) (auto simp add: div_eq_0_iff)
  next
    case False
    then show ?thesis by (subst write_fragments.simps) auto
  qed
qed

lemma write_fragments_nth:
  "k < length (write_fragments addr flag data idx n) \<Longrightarrow>
   write_fragments addr flag data idx n ! k =
     [of_int (FT260_I2C_DATA_REPORT_ID (int (min 60 (n - 60 * k)))), addr, flag,
      of_nat (min 60 (n - 60 * k))] @
     bytes (at_off data (idx + 60 * k)) (min 60 (n - 60 * k))"
proof (induction k arbitrary: idx n)
  case 0
  show ?case by (subst write_fragments.simps) (simp add: min.commute)
next
  case (Suc k)
  have big: "60 < n"
  proof (rule ccontr)
    assume "\<not> 60 < n"
    then have "length (write_fragments addr flag data idx n) = 1"
      by (subst write_fragments.simps) simp
    with Suc.prems show False by simp
  qed
  have tl: "write_fragments addr flag data idx n ! Suc k =
      write_fragments addr flag data (idx + 60) (n - 60) ! k"
    using big by (subst write_fragments.simps) simp
  have "k < length (write_fragments addr flag data (idx + 60) (n - 60))"
    using Suc.prems big by (subst (asm) write_fragments.simps) simp
  from Suc.IH[OF this] show ?case
    unfolding tl by (simp add: add.assoc diff_diff_eq)
qed

lemma write_fragments_concat:
  "concat (map (drop 4) (write_fragments addr flag data idx n)) = bytes (at_off data idx) n"
proof (induction n arbitrary: idx rule: less_induct)
  case (less n)
  show ?case
  proof (cases "60 < n")
    case True
    then have "n - 60 < n" by simp
    from less[OF this, of "idx + 60"] True
    have "concat (map (drop 4) (write_fragments addr flag data idx n)) =
        bytes (at_off data idx) 60 @ bytes (at_off data (idx + 60)) (n - 60)"
      by (subst write_fragments.simps) simp
    also have "\<dots> = bytes (at_off data idx) (60 + (n - 60))"
      by (simp add: bytes_append)
    finally show ?thesis using True by simp
  next
    case False
    then show ?thesis by (subst write_fragments.simps) simp
  qed
qed

lemma idle_world_same: "same_world d d' \<Longrightarrow> idle_world d \<Longrightarrow> idle_world d'"
  by (simp add: same_world_def idle_world_def)

lemma xfer_status_idle:
  assumes "idle_world dev"
  shows "ft260_xfer_status dev =
     (0, (log_call (FeatureGet 0xC0 5 5) dev)
           \<lparr>clock := le16_to_cpu (hw_feature_in dev (now dev) 2) (hw_feature_in dev (now dev) 3)\<rparr>)"
proof -
  have g: "ft260_hid_feature_report_get dev 0xC0 (\<lambda>_. 0) 5 =
      (5, memcpy (\<lambda>_. 0) 0 (hw_feature_in dev (now dev)) 5, log_call (FeatureGet 0xC0 5 5) dev)"
    using assms by (simp add: ft260_hid_feature_report_get_def Let_def idle_world_def)
  have b: "memcpy (\<lambda>_. 0) 0 (hw_feature_in dev (now dev)) 5 (Suc 0) = 0x20"
    using assms by (simp add: memcpy_def idle_world_def)
  show ?thesis
    by (simp add: ft260_xfer_status_def g Let_def b) (simp add: memcpy_def)
qed

lemma check_status_idle:
  assumes "idle_world dev" and "clock dev \<noteq> 0"
  shows "\<exists>dev'. ft260_hid_output_report_check_status dev data len = Inr (0, dev') \<and>
           idle_world dev' \<and> clock dev' \<noteq> 0 \<and>
           calls dev' = calls dev @
             [OutputReport (bytes data (nat len)) (hw_output_report dev (now dev)),
              UsleepRange (10000 div uint (clock dev) * len) (10000 div uint (clock dev) * len + 100),
              FeatureGet 0xC0 5 5]"
proof -
  define r where "r = hw_output_report dev (now dev)"
  define dev1 where "dev1 = log_call (OutputReport (bytes data (nat len)) r) dev"
  define usec where "usec = 10000 div uint (clock dev) * len"
  define dev2 where "dev2 = log_call (UsleepRange usec (usec + 100)) dev1"
  have o: "ft260_hid_output_report dev data (nat len) = (r, dev1)"
    using assms(1) by (simp add: output_report_eq Let_def r_def dev1_def idle_world_def)
  have r: "\<not> r < 0" using assms(1) by (simp add: r_def idle_world_def not_less)
  have c1: "clock dev1 = clock dev" by (simp add: dev1_def)
  have i2: "idle_world dev2"
    by (rule idle_world_same[OF _ assms(1)]) (simp add: dev2_def dev1_def)
  have st: "ft260_xfer_status dev2 =
     (0, (log_call (FeatureGet 0xC0 5 5) dev2)
           \<lparr>clock := le16_to_cpu (hw_feature_in dev2 (now dev2) 2) (hw_feature_in dev2 (now dev2) 3)\<rparr>)"
    by (rule xfer_status_idle[OF i2])
  have rt: "ft260_xfer_status_retry dev2 3 =
     (0, (log_call (FeatureGet 0xC0 5 5) dev2)
           \<lparr>clock := le16_to_cpu (hw_feature_in dev2 (now dev2) 2) (hw_feature_in dev2 (now dev2) 3)\<rparr>)"
    by (subst ft260_xfer_status_retry.simps) (simp add: st)
  define dev3 where "dev3 = (log_call (FeatureGet 0xC0 5 5) dev2)
           \<lparr>clock := le16_to_cpu (hw_feature_in dev2 (now dev2) 2) (hw_feature_in dev2 (now dev2) 3)\<rparr>"
  have "ft260_hid_output_report_check_status dev data len = Inr (0, dev3)"
    unfolding ft260_hid_output_report_check_status_def o
    using r assms(2) by (simp add: c1 Let_def usec_def[symmetric] dev2_def[symmetric] rt dev3_def)
  moreover have "idle_world dev3"
    by (rule idle_world_same[OF _ i2]) (simp add: dev3_def)
  moreover have "clock dev3 \<noteq> 0"
    using i2 by (simp add: dev3_def idle_world_def)
  moreover have "calls dev3 = calls dev @
             [OutputReport (bytes data (nat len)) r, UsleepRange usec (usec + 100),
              FeatureGet 0xC0 5 5]"
    by (simp add: dev3_def dev2_def dev1_def)
  ultimately show ?thesis unfolding r_def usec_def by blast
qed

lemma write_loop_idle:
  assumes "idle_world dev" and "clock dev \<noteq> 0" and "0 \<le> data_len"
  shows "\<exists>dev'. ft260_i2c_write_loop dev addr data data_len idx flag = Inr (0, dev') \<and>
           idle_world dev' \<and> clock dev' \<noteq> 0"
  using assms
proof (induction "nat data_len" arbitrary: dev idx data_len rule: less_induct)
  case less
  define len where "len = (if data_len \<le> 60 then data_len else 60)"
  define rep where "rep = memcpy ((write_buf dev)(0 := of_int (FT260_I2C_DATA_REPORT_ID len),
      1 := addr, 3 := of_int len, 2 := flag)) 4 (at_off data (nat idx)) (nat len)"
  define dev1 where "dev1 = dev\<lparr>write_buf := rep\<rparr>"
  have step: "ft260_i2c_write_loop dev addr data data_len idx flag =
      (case ft260_hid_output_report_check_status dev1 rep (len + 4) of
           Inl f \<Rightarrow> Inl f
         | Inr (ret, dev2) \<Rightarrow>
             if ret < 0 then Inr (ret, dev2)
             else if data_len - len > 0
             then ft260_i2c_write_loop dev2 addr data (data_len - len) (idx + len) flag
             else Inr (0, dev2))"
    unfolding write_loop_step[of dev] Let_def len_def[symmetric] rep_def[symmetric]
      dev1_def[symmetric] ..
  have "idle_world dev1" "clock dev1 \<noteq> 0"
    using less.prems by (simp_all add: dev1_def idle_world_def)
  from check_status_idle[OF this, of rep "len + 4"] obtain dev2 where
    cs: "ft260_hid_output_report_check_status dev1 rep (len + 4) = Inr (0, dev2)"
    and i2: "idle_world dev2" "clock dev2 \<noteq> 0"
    by blast
  show ?case
  proof (cases "data_len - len > 0")
    case True
    then have big: "60 < data_len" "len = 60" by (auto simp add: len_def split: if_splits)
    have "nat (data_len - 60) < nat data_len" using big by simp
    from less.hyps[OF this i2, of "idx + 60"] big
    show ?thesis unfolding step cs by simp
  next
    case False
    then show ?thesis unfolding step cs using i2 by simp
  qed
qed

lemma write_reports:
  assumes "0 \<le> L" and "ft260_i2c_write dev addr data L flag = Inr (0, dev')"
  shows "\<exists>new. calls dev' = calls dev @ new \<and>
           output_reports new = write_fragments addr flag data 0 (nat L)"
  using write_loop_reports[of L 0 dev addr data flag dev'] assms
  by (auto simp add: ft260_i2c_write_def)

text \<open>
  Claim C2, as amended. For a payload of \<open>L \<ge> 0\<close> bytes: where every allocation and
  transfer succeeds and the bridge reports an idle bus, the write returns 0; and whenever
  the write returns 0, the output reports it has issued are \<open>ceil(L/60)\<close> fragments for
  \<open>L \<ge> 1\<close>, and one fragment for \<open>L = 0\<close>. Fragment \<open>k\<close> carries the report id of its
  chunk length, the address, the flag, its chunk length \<open>min 60 (L - 60 k)\<close>, and the
  bytes of the payload from offset \<open>60 k\<close>; the data fields concatenated are the payload.
\<close>

theorem i2c_write_fragments:
  assumes "0 \<le> L"
  shows "(idle_world dev \<and> clock dev \<noteq> 0 \<longrightarrow>
            (\<exists>dev'. ft260_i2c_write dev addr data L flag = Inr (0, dev'))) \<and>
         (\<forall>dev'. ft260_i2c_write dev addr data L flag = Inr (0, dev') \<longrightarrow>
            (\<exists>new. calls dev' = calls dev @ new \<and>
               length (output_reports new) = (if L = 0 then 1 else (nat L + 59) div 60) \<and>
               (\<forall>k < length (output_reports new).
                  output_reports new ! k =
                    [of_int (FT260_I2C_DATA_REPORT_ID (int (min 60 (nat L - 60 * k)))), addr, flag,
                     of_nat (min 60 (nat L - 60 * k))] @
                    bytes (at_off data (60 * k)) (min 60 (nat L - 60 * k))) \<and>
               concat (map (drop 4) (output_reports new)) = bytes data (nat L)))"
proof (intro conjI allI impI)
  assume "idle_world dev \<and> clock dev \<noteq> 0"
  then show "\<exists>dev'. ft260_i2c_write dev addr data L flag = Inr (0, dev')"
    using write_loop_idle[of dev L addr data 0 flag] assms
    unfolding ft260_i2c_write_def by blast
next
  fix dev' assume w: "ft260_i2c_write dev addr data L flag = Inr (0, dev')"
  from write_reports[OF assms w] obtain new where
    new: "calls dev' = calls dev @ new"
      "output_reports new = write_fragments addr flag data 0 (nat L)"
    by blast
  have l: "length (output_reports new) = (if L = 0 then 1 else (nat L + 59) div 60)"
    unfolding new(2) write_fragments_length using assms by simp
  have n: "\<forall>k < length (output_reports new).
      output_reports new ! k =
        [of_int (FT260_I2C_DATA_REPORT_ID (int (min 60 (nat L - 60 * k)))), addr, flag,
         of_nat (min 60 (nat L - 60 * k))] @
        bytes (at_off data (60 * k)) (min 60 (nat L - 60 * k))"
    unfolding new(2) using write_fragments_nth[of _ addr flag data 0 "nat L"] by simp
  have c: "concat (map (drop 4) (output_reports new)) = bytes data (nat L)"
    unfolding new(2) write_fragments_concat by simp
  show "\<exists>new. calls dev' = calls dev @ new \<and>
               length (output_reports new) = (if L = 0 then 1 else (nat L + 59) div 60) \<and>
               (\<forall>k < length (output_reports new).
                  output_reports new ! k =
                    [of_int (FT260_I2C_DATA_REPORT_ID (int (min 60 (nat L - 60 * k)))), addr, flag,
                     of_nat (min 60 (nat L - 60 * k))] @
                    bytes (at_off data (60 * k)) (min 60 (nat L - 60 * k))) \<and>
               concat (map (drop 4) (output_reports new)) = bytes data (nat L)"
    using new(1) l n c by blast
qed

lemma idle_world_idle_bridge: "idle_world idle_bridge \<and> clock idle_bridge \<noteq> 0"
  by (simp add: idle_world_def idle_bridge_def buf_of_def le16_to_cpu_def)

lemma list_of_length_1: "length xs = 1 \<Longrightarrow> xs = [xs ! 0]"
  by (cases xs) auto

lemma list_of_length_2: "length xs = 2 \<Longrightarrow> xs = [xs ! 0, xs ! 1]"
  by (cases xs; cases "tl xs") auto

lemma report_id_values:
  "FT260_I2C_DATA_REPORT_ID 60 = 0xDE" "FT260_I2C_DATA_REPORT_ID 1 = 0xD0"
  "FT260_I2C_DATA_REPORT_ID 0 = 0xD0"
  by (simp_all add: FT260_I2C_DATA_REPORT_ID_def signed_divide_int_def)

text \<open>
  Payloads of 60 and of 61 bytes on the idle bridge: one fragment of 60 bytes, and two
  fragments of 60 bytes and 1 byte.
\<close>

theorem i2c_write_fragments_witness:
  "(\<exists>dev'. ft260_i2c_write idle_bridge 0x50 two_byte_report 60 0x06 = Inr (0, dev') \<and>
      map (take 4) (output_reports (calls dev')) = [[0xDE, 0x50, 0x06, 60]] \<and>
      map length (output_reports (calls dev')) = [64]) \<and>
   (\<exists>dev'. ft260_i2c_write idle_bridge 0x50 two_byte_report 61 0x06 = Inr (0, dev') \<and>
      map (take 4) (output_reports (calls dev')) = [[0xDE, 0x50, 0x06, 60], [0xD0, 0x50, 0x06, 1]] \<and>
      map length (output_reports (calls dev')) = [64, 5])"
proof -
  have ci: "calls idle_bridge = []" by (simp add: idle_bridge_def)
  have z: "(0::int) \<le> 60" "(0::int) \<le> 61" by simp_all
  note a = i2c_write_fragments[where L = 60 and dev = idle_bridge and addr = "0x50"
      and data = two_byte_report and flag = "0x06", OF z(1)]
  note b = i2c_write_fragments[where L = 61 and dev = idle_bridge and addr = "0x50"
      and data = two_byte_report and flag = "0x06", OF z(2)]
  from a[THEN conjunct1, rule_format, OF idle_world_idle_bridge] obtain d1 where
    d1: "ft260_i2c_write idle_bridge 0x50 two_byte_report 60 0x06 = Inr (0, d1)" ..
  from a[THEN conjunct2, rule_format, OF d1] obtain new1 where
    n1h: "calls d1 = calls idle_bridge @ new1 \<and>
      length (output_reports new1) = (if (60::int) = 0 then 1 else (nat 60 + 59) div 60) \<and>
      (\<forall>k < length (output_reports new1).
                  output_reports new1 ! k =
                    [of_int (FT260_I2C_DATA_REPORT_ID (int (min 60 (nat 60 - 60 * k)))), 0x50, 0x06,
                     of_nat (min 60 (nat 60 - 60 * k))] @
                    bytes (at_off two_byte_report (60 * k)) (min 60 (nat 60 - 60 * k))) \<and>
      concat (map (drop 4) (output_reports new1)) = bytes two_byte_report (nat 60)" ..
  note n1a = n1h[THEN conjunct1] n1h[THEN conjunct2, THEN conjunct1]
  note n1b = n1h[THEN conjunct2, THEN conjunct2, THEN conjunct1]
  have n1: "calls d1 = new1" "length (output_reports new1) = 1"
    using n1a by (simp_all add: ci)
  have r10: "output_reports new1 ! 0 = [0xDE, 0x50, 0x06, 60] @ bytes two_byte_report 60"
    using n1b[rule_format, of 0] n1(2) by (simp add: report_id_values)
  have first: "map (take 4) (output_reports (calls d1)) = [[0xDE, 0x50, 0x06, 60]] \<and>
      map length (output_reports (calls d1)) = [64]"
  proof -
    have "output_reports new1 = [output_reports new1 ! 0]"
      by (rule list_of_length_1[OF n1(2)])
    then have "output_reports new1 = [[0xDE, 0x50, 0x06, 60] @ bytes two_byte_report 60]"
      unfolding r10 .
    then show ?thesis unfolding n1(1) by simp
  qed
  from b[THEN conjunct1, rule_format, OF idle_world_idle_bridge] obtain d2 where
    d2: "ft260_i2c_write idle_bridge 0x50 two_byte_report 61 0x06 = Inr (0, d2)" ..
  from b[THEN conjunct2, rule_format, OF d2] obtain new2 where
    n2h: "calls d2 = calls idle_bridge @ new2 \<and>
      length (output_reports new2) = (if (61::int) = 0 then 1 else (nat 61 + 59) div 60) \<and>
      (\<forall>k < length (output_reports new2).
                  output_reports new2 ! k =
                    [of_int (FT260_I2C_DATA_REPORT_ID (int (min 60 (nat 61 - 60 * k)))), 0x50, 0x06,
                     of_nat (min 60 (nat 61 - 60 * k))] @
                    bytes (at_off two_byte_report (60 * k)) (min 60 (nat 61 - 60 * k))) \<and>
      concat (map (drop 4) (output_reports new2)) = bytes two_byte_report (nat 61)" ..
  note n2a = n2h[THEN conjunct1] n2h[THEN conjunct2, THEN conjunct1]
  note n2b = n2h[THEN conjunct2, THEN conjunct2, THEN conjunct1]
  have n2: "calls d2 = new2" "length (output_reports new2) = 2"
    using n2a by (simp_all add: ci)
  have r20: "output_reports new2 ! 0 = [0xDE, 0x50, 0x06, 60] @ bytes two_byte_report 60"
    using n2b[rule_format, of 0] n2(2) by (simp add: report_id_values)
  have r21: "output_reports new2 ! 1 = [0xD0, 0x50, 0x06, 1] @ bytes (at_off two_byte_report 60) 1"
    using n2b[rule_format, of 1] n2(2) by (simp add: report_id_values)
  have second: "map (take 4) (output_reports (calls d2)) = [[0xDE, 0x50, 0x06, 60], [0xD0, 0x50, 0x06, 1]] \<and>
      map length (output_reports (calls d2)) = [64, 5]"
  proof -
    have "output_reports new2 = [output_reports new2 ! 0, output_reports new2 ! 1]"
      by (rule list_of_length_2[OF n2(2)])
    then have "output_reports new2 = [[0xDE, 0x50, 0x06, 60] @ bytes two_byte_report 60,
        [0xD0, 0x50, 0x06, 1] @ bytes (at_off two_byte_report 60) 1]"
      unfolding r20 r21 .
    then show ?thesis unfolding n2(1) by simp
  qed
  have "\<exists>dev'. ft260_i2c_write idle_bridge 0x50 two_byte_report 60 0x06 = Inr (0, dev') \<and>
      map (take 4) (output_reports (calls dev')) = [[0xDE, 0x50, 0x06, 60]] \<and>
      map length (output_reports (calls dev')) = [64]"
    using d1 first by (intro exI[of _ d1] conjI) simp_all
  moreover have "\<exists>dev'. ft260_i2c_write idle_bridge 0x50 two_byte_report 61 0x06 = Inr (0, dev') \<and>
      map (take 4) (output_reports (calls dev')) = [[0xDE, 0x50, 0x06, 60], [0xD0, 0x50, 0x06, 1]] \<and>
      map length (output_reports (calls dev')) = [64, 5]"
    using d2 second by (intro exI[of _ d2] conjI) simp_all
  ultimately show ?thesis by (rule conjI)
qed

lemma memcpy_nothing [simp]: "memcpy dst off src 0 = dst"
  by (auto simp add: memcpy_def fun_eq_iff)

text \<open>
  An empty payload: the body of the \<open>do { ... } while\<close> loop runs once, and one fragment
  with length field 0 and no data is issued.
\<close>

theorem i2c_write_empty_payload_counterexample:
  "ft260_i2c_write idle_bridge 0x50 two_byte_report 0 0x06 =
     Inr (0, idle_bridge
       \<lparr>write_buf := (write_buf idle_bridge)(0 := 0xD0, 1 := 0x50, 3 := 0, 2 := 0x06),
        calls := [OutputReport [0xD0, 0x50, 0x06, 0] 64, UsleepRange 400 500,
                  FeatureGet 0xC0 5 5]\<rparr>) \<and>
   output_reports [OutputReport [0xD0, 0x50, 0x06, 0] 64, UsleepRange 400 500,
                   FeatureGet 0xC0 5 5] = [[0xD0, 0x50, 0x06, 0]]"
proof -
  define rep where "rep = (write_buf idle_bridge)(0 := 0xD0, 1 := 0x50, 3 := 0, 2 := (0x06::u8))"
  define dev1 where "dev1 = idle_bridge\<lparr>write_buf := rep\<rparr>"
  have step: "ft260_i2c_write idle_bridge 0x50 two_byte_report 0 0x06 =
      (case ft260_hid_output_report_check_status dev1 rep 4 of
           Inl f \<Rightarrow> Inl f
         | Inr (ret, dev2) \<Rightarrow> if ret < 0 then Inr (ret, dev2) else Inr (0, dev2))"
    unfolding ft260_i2c_write_def write_loop_step[of idle_bridge]
    by (simp add: Let_def report_id_values rep_def dev1_def split: sum.splits prod.splits)
  have a: "kmalloc_ok dev1 (now dev1) \<and> 0 \<le> hw_output_report dev1 (now dev1) \<and> clock dev1 \<noteq> 0"
    by (simp add: dev1_def idle_bridge_def)
  have b: "kmalloc_ok dev1 (now dev1 + 2) \<and> hw_raw_request dev1 (now dev1 + 2) = 5"
    by (simp add: dev1_def idle_bridge_def)
  have c: "status_code dev1 (now dev1 + 2) = 0 \<or> status_code dev1 (now dev1 + 2) = - EBUSY"
    by (simp add: status_code_def dev1_def idle_bridge_def buf_of_def)
  have b4: "bytes rep 4 = [0xD0, 0x50, 0x06, 0]"
    by (simp add: bytes_def rep_def upt_rec)
  have le: "le16_to_cpu 100 0 = 100" by (simp add: le16_to_cpu_def)
  have cs: "ft260_hid_output_report_check_status dev1 rep 4 =
     Inr (0, idle_bridge
       \<lparr>write_buf := rep,
        calls := [OutputReport [0xD0, 0x50, 0x06, 0] 64, UsleepRange 400 500,
                  FeatureGet 0xC0 5 5]\<rparr>)"
    unfolding check_status_answered_once[OF a b c]
    by (simp add: b4) (simp add: dev1_def idle_bridge_def now_def buf_of_def le)
  show ?thesis
    unfolding step cs by (simp add: rep_def)
qed

section \<open>Combined write-then-read transfers\<close>
















lemma idle_world_updates [simp]:
  "idle_world (log_call c d) = idle_world d"
  "idle_world (d\<lparr>clock := ck\<rparr>) = idle_world d"
  "idle_world (d\<lparr>calls := cs\<rparr>) = idle_world d"
  "idle_world (d\<lparr>wait := w\<rparr>) = idle_world d"
  "idle_world (d\<lparr>mem := m\<rparr>) = idle_world d"
  "idle_world (d\<lparr>read_idx := i\<rparr>) = idle_world d"
  "idle_world (d\<lparr>read_buf := b\<rparr>) = idle_world d"
  "idle_world (d\<lparr>read_len := l\<rparr>) = idle_world d"
  "idle_world (d\<lparr>write_buf := wb\<rparr>) = idle_world d"
  by (simp_all add: idle_world_def log_call_def)





end
